theory Spec2Isabelle
  imports Complex_Main "HOL-Library.Multiset" "HOL-Library.Sublist"
begin

section \<open>Python values and the character tables of the runtime\<close>

text \<open>
  A Python \<open>str\<close> is a sequence of Unicode code points; a code point is modelled as a
  natural number. \<open>ustr\<close> reads an ASCII literal as such a sequence.
\<close>

type_synonym ustring = "nat list"

definition ustr :: "string \<Rightarrow> ustring" where
  "ustr s = map of_char s"

text \<open>
  The values that may reach \<open>normalize_song_name\<close>: the strings of the \<open>filename\<close>
  column, and whatever else a cell or an argument holds (\<open>None\<close>, a number, the float
  that pandas stores for a missing cell).
\<close>

datatype pyobj = PyStr ustring | PyNone | PyInt int | PyFloat real

text \<open>
  \<open>str.isspace\<close>, which is also the class \<open>\s\<close> of \<open>re\<close> on \<open>str\<close> patterns and the
  separator set of \<open>str.split()\<close> and \<open>str.strip()\<close>: the 29 code points of CPython's
  whitespace table.
\<close>

definition isspace :: "nat \<Rightarrow> bool" where
  "isspace c \<longleftrightarrow>
     (9 \<le> c \<and> c \<le> 13) \<or> (28 \<le> c \<and> c \<le> 32) \<or> c = 133 \<or> c = 160 \<or> c = 5760 \<or>
     (8192 \<le> c \<and> c \<le> 8202) \<or> c = 8232 \<or> c = 8233 \<or> c = 8239 \<or> c = 8287 \<or> c = 12288"

text \<open>
  The alphanumeric table (\<open>str.isalnum\<close>) and the lower-casing of a string (\<open>str.lower\<close>,
  which is not a map over single characters: U+0130 becomes two code points, and a capital
  sigma depends on its position) belong to the Python runtime, not to the repository.
  They are parameters of the model.
\<close>

record unicode_db =
  str_isalnum :: "nat \<Rightarrow> bool"
  str_lower :: "ustring \<Rightarrow> ustring"

text \<open>The class \<open>\w\<close> of \<open>re\<close> on a \<open>str\<close> pattern: alphanumeric, or the underscore.\<close>

definition is_word :: "unicode_db \<Rightarrow> nat \<Rightarrow> bool" where
  "is_word db c \<longleftrightarrow> str_isalnum db c \<or> c = 95"

text \<open>
  An excerpt of CPython's tables for evaluating examples: exact on ASCII, on U+0130
  (capital I with dot above, a letter whose lower case is \<open>i\<close> followed by U+0307) and on
  U+0307 (a combining mark, not alphanumeric). No example below uses another code point.
\<close>

definition ascii_isalnum :: "nat \<Rightarrow> bool" where
  "ascii_isalnum c \<longleftrightarrow> (48 \<le> c \<and> c \<le> 57) \<or> (65 \<le> c \<and> c \<le> 90) \<or> (97 \<le> c \<and> c \<le> 122)"

definition lower_char :: "nat \<Rightarrow> ustring" where
  "lower_char c = (if 65 \<le> c \<and> c \<le> 90 then [c + 32] else if c = 304 then [105, 775] else [c])"

definition excerpt_db :: unicode_db where
  "excerpt_db = \<lparr> str_isalnum = (\<lambda>c. ascii_isalnum c \<or> c = 304),
                  str_lower = (\<lambda>s. concat (map lower_char s)) \<rparr>"

section \<open>Name Normalizer: \<open>normalize_song_name\<close>\<close>

text \<open>
  \<open>re.sub(r'[\(\[].*?[\)\]]', '', name)\<close>. The pattern matches at a position holding
  \<open>(\<close> or \<open>[\<close> when the lazy \<open>.*?\<close> can reach a \<open>)\<close> or \<open>]\<close>: it stops at the first
  closing bracket of either kind, and fails when a line feed comes first, since \<open>.\<close> does
  not match a line feed. \<open>close_match cs\<close> is the rest of the string after the match whose
  opening bracket has just been read, if there is one.
\<close>

definition is_open :: "nat \<Rightarrow> bool" where
  "is_open c \<longleftrightarrow> c = 40 \<or> c = 91"

definition is_close :: "nat \<Rightarrow> bool" where
  "is_close c \<longleftrightarrow> c = 41 \<or> c = 93"

fun close_match :: "ustring \<Rightarrow> ustring option" where
  "close_match [] = None"
| "close_match (c # cs) =
     (if is_close c then Some cs else if c = 10 then None else close_match cs)"

text \<open>\<open>re.sub\<close> scans from the left; a matched span is dropped and the scan goes on after it.\<close>

function sub_bracketed :: "ustring \<Rightarrow> ustring" where
  "sub_bracketed [] = []"
| "sub_bracketed (c # cs) =
     (if is_open c
      then (case close_match cs of
              Some r \<Rightarrow> sub_bracketed r
            | None \<Rightarrow> c # sub_bracketed cs)
      else c # sub_bracketed cs)"
  by pat_completeness auto
termination
proof (relation "measure length")
  show "wf (measure length)" by simp
next
  fix c :: nat and cs r :: ustring
  assume "close_match cs = Some r"
  then have "length r < Suc (length cs)"
    by (induction cs) (auto split: if_splits)
  then show "(r, c # cs) \<in> measure length" by simp
qed auto

text \<open>\<open>re.sub(r'[^\w\s]', '', name)\<close>.\<close>

definition sub_special :: "unicode_db \<Rightarrow> ustring \<Rightarrow> ustring" where
  "sub_special db s = filter (\<lambda>c. is_word db c \<or> isspace c) s"

text \<open>\<open>name.strip()\<close>.\<close>

definition strip :: "ustring \<Rightarrow> ustring" where
  "strip s = rev (dropWhile isspace (rev (dropWhile isspace s)))"

text \<open>\<open>re.sub(r'\s+', ' ', name)\<close>: every maximal run of whitespace becomes one space.\<close>

function sub_spaces :: "ustring \<Rightarrow> ustring" where
  "sub_spaces [] = []"
| "sub_spaces (c # cs) =
     (if isspace c then 32 # sub_spaces (dropWhile isspace cs) else c # sub_spaces cs)"
  by pat_completeness auto
termination
  by (relation "measure length") (auto simp: less_Suc_eq_le length_dropWhile_le)

definition normalize_song_name :: "unicode_db \<Rightarrow> pyobj \<Rightarrow> ustring" where
  "normalize_song_name db name =
     (case name of
        PyStr s \<Rightarrow> sub_spaces (strip (str_lower db (sub_special db (sub_bracketed s))))
      | _ \<Rightarrow> [])"

section \<open>Name Resolver: the matching loop of \<open>find_best_crossfade_from_match\<close>\<close>

text \<open>\<open>a in b\<close> on strings: \<open>a\<close> occurs in \<open>b\<close> as a contiguous block.\<close>

fun py_in :: "ustring \<Rightarrow> ustring \<Rightarrow> bool" where
  "py_in a [] \<longleftrightarrow> a = []"
| "py_in a (c # cs) \<longleftrightarrow> prefix a (c # cs) \<or> py_in a cs"

text \<open>\<open>s.split()\<close>: the maximal blocks of non-whitespace characters, in order.\<close>

function str_split :: "ustring \<Rightarrow> ustring list" where
  "str_split [] = []"
| "str_split (c # cs) =
     (if isspace c then str_split cs
      else (c # takeWhile (\<lambda>x. \<not> isspace x) cs) # str_split (dropWhile (\<lambda>x. \<not> isspace x) cs))"
  by pat_completeness auto
termination
  by (relation "measure length") (auto simp: less_Suc_eq_le length_dropWhile_le)

text \<open>
  The score of one candidate (lines 56 to 63). It is \<open>1.0\<close> or a quotient of two word
  counts; the model keeps the exact quotient as a rational. Python divides in binary
  floating point, correctly rounded, so two quotients of counts below \<open>2^26\<close> compare as
  the exact quotients do, and a quotient compares with the literal \<open>0.3\<close> as the exact
  quotient compares with \<open>3/10\<close>.
\<close>

definition match_score :: "ustring \<Rightarrow> ustring \<Rightarrow> rat" where
  "match_score normalized_target csv_song_normalized =
     (if py_in normalized_target csv_song_normalized \<or> py_in csv_song_normalized normalized_target
      then 1
      else
        let target_words = set (str_split normalized_target);
            csv_words = set (str_split csv_song_normalized);
            common_words = target_words \<inter> csv_words
        in of_nat (card common_words) / of_nat (max (card target_words) 1))"

text \<open>
  The loop of lines 54 to 67 over \<open>enumerate(df_normalized)\<close>, with its two variables
  \<open>best_match_idx\<close> (initially \<open>-1\<close>) and \<open>best_match_score\<close> (initially \<open>0\<close>).
\<close>

fun scan :: "ustring \<Rightarrow> (nat \<times> ustring) list \<Rightarrow> int \<times> rat \<Rightarrow> int \<times> rat" where
  "scan normalized_target [] best = best"
| "scan normalized_target ((idx, csv_song_normalized) # rest) (best_match_idx, best_match_score) =
     (let score = match_score normalized_target csv_song_normalized in
      if score > best_match_score
      then scan normalized_target rest (int idx, score)
      else scan normalized_target rest (best_match_idx, best_match_score))"

text \<open>Lines 43 to 71: the row the target name resolves to, or \<open>None\<close> for the early return.\<close>

definition resolve_name :: "unicode_db \<Rightarrow> pyobj \<Rightarrow> pyobj list \<Rightarrow> nat option" where
  "resolve_name db target_song_name names =
     (let normalized_target = normalize_song_name db target_song_name;
          df_normalized = map (normalize_song_name db) names;
          (best_match_idx, best_match_score) =
             scan normalized_target (enumerate 0 df_normalized) (- 1, 0)
      in if best_match_idx = - 1 \<or> best_match_score < 3 / 10 then None
         else Some (nat best_match_idx))"

section \<open>Recommendation Selector and the whole of \<open>find_best_crossfade_from_match\<close>\<close>

datatype exn = KeyError | IndexError | ValueError

text \<open>A data frame: its columns by name. The function reads the column \<open>filename\<close> only.\<close>

type_synonym dataframe = "string \<rightharpoonup> pyobj list"

text \<open>
  \<open>similarities.argsort()\<close> returns the column indices in ascending order of their values.
  numpy's default sort is not stable, so the order among equal values is not fixed by the
  source: \<open>argsort\<close> is a parameter, and \<open>is_argsort\<close> says what every argsort satisfies.
  \<open>stable_argsort\<close> is the one that keeps equal values in index order.
\<close>

definition is_argsort :: "real list \<Rightarrow> nat list \<Rightarrow> bool" where
  "is_argsort row p \<longleftrightarrow> mset p = mset [0..<length row] \<and> sorted (map (\<lambda>i. row ! i) p)"

definition stable_argsort :: "real list \<Rightarrow> nat list" where
  "stable_argsort row = sort_key (\<lambda>i. row ! i) [0..<length row]"

text \<open>Lines 88 to 92: the first index of the scan that is not the target.\<close>

definition select_other :: "nat \<Rightarrow> nat list \<Rightarrow> nat option" where
  "select_other target_song_idx similar_indices =
     find (\<lambda>idx. idx \<noteq> target_song_idx) similar_indices"

text \<open>
  The body of the \<open>try\<close> block. \<open>df['filename']\<close> raises KeyError without the column;
  \<open>similarity_matrix[target_song_idx, :]\<close> raises IndexError past the last row;
  \<open>df.iloc[idx]\<close> raises IndexError past the last row of the frame, in the debug loop
  over the first five indices (lines 82 to 85) as in the selection loop. The value returned
  is the cell of the \<open>filename\<close> column, or Python's \<open>None\<close>.
\<close>

definition crossfade_body ::
  "(real list \<Rightarrow> nat list) \<Rightarrow> unicode_db \<Rightarrow> pyobj \<Rightarrow> dataframe \<Rightarrow> real list list \<Rightarrow> exn + pyobj" where
  "crossfade_body argsort db target_song_name df similarity_matrix =
     (case df ''filename'' of
        None \<Rightarrow> Inl KeyError
      | Some names \<Rightarrow>
          (case resolve_name db target_song_name names of
             None \<Rightarrow> Inr PyNone
           | Some target_song_idx \<Rightarrow>
               if length similarity_matrix \<le> target_song_idx then Inl IndexError
               else
                 let similarities = similarity_matrix ! target_song_idx;
                     similar_indices = rev (argsort similarities)
                 in if list_ex (\<lambda>idx. idx \<noteq> target_song_idx \<and> length names \<le> idx)
                         (take 5 similar_indices)
                    then Inl IndexError
                    else (case select_other target_song_idx similar_indices of
                            None \<Rightarrow> Inr PyNone
                          | Some idx \<Rightarrow>
                              if idx < length names then Inr (names ! idx)
                              else Inl IndexError)))"

text \<open>Lines 39 and 97 to 101: \<open>except Exception\<close> turns every error of the body into \<open>None\<close>.\<close>

definition find_best_crossfade_from_match ::
  "(real list \<Rightarrow> nat list) \<Rightarrow> unicode_db \<Rightarrow> pyobj \<Rightarrow> dataframe \<Rightarrow> real list list \<Rightarrow> pyobj" where
  "find_best_crossfade_from_match argsort db target_song_name df similarity_matrix =
     (case crossfade_body argsort db target_song_name df similarity_matrix of
        Inl e \<Rightarrow> PyNone
      | Inr r \<Rightarrow> r)"

section \<open>Similarity Engine: the matrix built in \<open>main\<close>\<close>

text \<open>
  The tempo columns are never validated by \<open>main\<close>: a cell holds whatever double
  \<open>pd.read_csv\<close> produced, a number, an infinity or NaN (an empty cell). A double is
  modelled as a real number, one of the two infinities, or NaN. The arithmetic follows
  IEEE 754 on the special values and on overflow: an exact result of magnitude
  \<open>2^1024 - 2^970\<close> or more becomes an infinity. Rounding of results within range is not
  modelled, they are kept exact; the sign of a zero is not modelled either, a zero divisor
  is taken as \<open>+0\<close>.
\<close>

datatype float64 = is_Fin: Fin (fval: real) | PInf | MInf | NaN

definition OVERFLOW :: real where
  "OVERFLOW = 2 ^ 1024 - 2 ^ 970"

definition fl :: "real \<Rightarrow> float64" where
  "fl r = (if OVERFLOW \<le> r then PInf else if r \<le> - OVERFLOW then MInf else Fin r)"

fun fneg :: "float64 \<Rightarrow> float64" where
  "fneg (Fin a) = Fin (- a)"
| "fneg PInf = MInf"
| "fneg MInf = PInf"
| "fneg NaN = NaN"

fun fabs :: "float64 \<Rightarrow> float64" where
  "fabs (Fin a) = Fin \<bar>a\<bar>"
| "fabs PInf = PInf"
| "fabs MInf = PInf"
| "fabs NaN = NaN"

fun fadd :: "float64 \<Rightarrow> float64 \<Rightarrow> float64" where
  "fadd (Fin a) (Fin b) = fl (a + b)"
| "fadd NaN y = NaN"
| "fadd x NaN = NaN"
| "fadd PInf MInf = NaN"
| "fadd MInf PInf = NaN"
| "fadd PInf y = PInf"
| "fadd x PInf = PInf"
| "fadd MInf y = MInf"
| "fadd x MInf = MInf"

definition fsub :: "float64 \<Rightarrow> float64 \<Rightarrow> float64" where
  "fsub x y = fadd x (fneg y)"

fun fmul :: "float64 \<Rightarrow> float64 \<Rightarrow> float64" where
  "fmul (Fin a) (Fin b) = fl (a * b)"
| "fmul NaN y = NaN"
| "fmul x NaN = NaN"
| "fmul (Fin a) PInf = (if a = 0 then NaN else if 0 < a then PInf else MInf)"
| "fmul (Fin a) MInf = (if a = 0 then NaN else if 0 < a then MInf else PInf)"
| "fmul PInf (Fin b) = (if b = 0 then NaN else if 0 < b then PInf else MInf)"
| "fmul MInf (Fin b) = (if b = 0 then NaN else if 0 < b then MInf else PInf)"
| "fmul PInf PInf = PInf"
| "fmul PInf MInf = MInf"
| "fmul MInf PInf = MInf"
| "fmul MInf MInf = PInf"

fun fdiv :: "float64 \<Rightarrow> float64 \<Rightarrow> float64" where
  "fdiv (Fin a) (Fin b) =
     (if b = 0 then (if a = 0 then NaN else if 0 < a then PInf else MInf) else fl (a / b))"
| "fdiv NaN y = NaN"
| "fdiv x NaN = NaN"
| "fdiv (Fin a) PInf = Fin 0"
| "fdiv (Fin a) MInf = Fin 0"
| "fdiv PInf (Fin b) = (if 0 \<le> b then PInf else MInf)"
| "fdiv MInf (Fin b) = (if 0 \<le> b then MInf else PInf)"
| "fdiv PInf PInf = NaN"
| "fdiv PInf MInf = NaN"
| "fdiv MInf PInf = NaN"
| "fdiv MInf MInf = NaN"

text \<open>The larger of two doubles as \<open>ndarray.max\<close> takes it: NaN wins over everything.\<close>

fun fmax :: "float64 \<Rightarrow> float64 \<Rightarrow> float64" where
  "fmax (Fin a) (Fin b) = Fin (max a b)"
| "fmax NaN y = NaN"
| "fmax x NaN = NaN"
| "fmax PInf y = PInf"
| "fmax x PInf = PInf"
| "fmax MInf y = y"
| "fmax x MInf = x"

text \<open>
  A row of the data frame after the feature columns have been parsed (lines 136 to 139).
  The feature vectors only pass through scikit-learn, whose two routines are parameters
  below; their numbers are modelled as reals.
\<close>

record track =
  mfcc_start :: "real list"
  chroma_start :: "real list"
  mfcc_end :: "real list"
  chroma_end :: "real list"
  tempo_start :: float64
  tempo_end :: float64

definition MFCC_WEIGHT :: real where
  "MFCC_WEIGHT = 4 / 10"

definition CHROMA_WEIGHT :: real where
  "CHROMA_WEIGHT = 2 / 10"

definition TEMPO_WEIGHT :: real where
  "TEMPO_WEIGHT = 4 / 10"

text \<open>\<open>np.vstack\<close>: the arrays as the rows of a matrix; it raises ValueError on an empty
  sequence and on rows of different lengths.\<close>

definition vstack :: "real list list \<Rightarrow> exn + real list list" where
  "vstack arrays =
     (case arrays of
        [] \<Rightarrow> Inl ValueError
      | a # as \<Rightarrow> if list_all (\<lambda>x. length x = length a) as then Inr arrays else Inl ValueError)"

text \<open>
  \<open>sklearn.metrics.pairwise.cosine_similarity(X, Y)\<close>: entry \<open>(i, j)\<close> is the cosine
  similarity of row \<open>i\<close> of \<open>X\<close> and row \<open>j\<close> of \<open>Y\<close>; it raises ValueError when the two
  matrices differ in their number of columns. The similarity of two vectors, \<open>cosine\<close>,
  and \<open>StandardScaler().fit_transform\<close> are scikit-learn's code, not the repository's:
  both are parameters.
\<close>

definition n_columns :: "real list list \<Rightarrow> nat" where
  "n_columns X = (case X of [] \<Rightarrow> 0 | x # _ \<Rightarrow> length x)"

definition cosine_similarity ::
  "(real list \<Rightarrow> real list \<Rightarrow> real) \<Rightarrow> real list list \<Rightarrow> real list list \<Rightarrow> exn + real list list" where
  "cosine_similarity cosine X Y =
     (if n_columns X \<noteq> n_columns Y then Inl ValueError
      else Inr (map (\<lambda>x. map (\<lambda>y. cosine x y) Y) X))"

text \<open>
  Lines 167 to 169, in the arithmetic of doubles. \<open>tempo_matrix.max()\<close> raises ValueError
  on an empty matrix.
\<close>

definition tempo_matrix :: "track list \<Rightarrow> float64 list list" where
  "tempo_matrix df = map (\<lambda>r. map (\<lambda>c. fabs (fsub (tempo_end r) (tempo_start c))) df) df"

definition matrix_max :: "float64 list list \<Rightarrow> exn + float64" where
  "matrix_max m = (case concat m of [] \<Rightarrow> Inl ValueError | d # ds \<Rightarrow> Inr (fold fmax ds d))"

definition tempo_similarity :: "track list \<Rightarrow> exn + float64 list list" where
  "tempo_similarity df =
     (case matrix_max (tempo_matrix df) of
        Inl e \<Rightarrow> Inl e
      | Inr mx \<Rightarrow>
          Inr (map (map (\<lambda>d. fsub (Fin 1) (fdiv d (fadd mx (Fin (1 / 10 ^ 8))))))
                 (tempo_matrix df)))"

text \<open>Lines 172 to 174, entry by entry.\<close>

definition combine :: "real \<Rightarrow> real \<Rightarrow> float64 \<Rightarrow> float64" where
  "combine m c t =
     fadd (fadd (fmul (Fin MFCC_WEIGHT) (Fin m)) (fmul (Fin CHROMA_WEIGHT) (Fin c)))
       (fmul (Fin TEMPO_WEIGHT) t)"

definition combine_matrices ::
  "real list list \<Rightarrow> real list list \<Rightarrow> float64 list list \<Rightarrow> float64 list list" where
  "combine_matrices mfcc_similarity chroma_similarity tempo_sim =
     map2 (\<lambda>(ms, cs) ts. map2 (\<lambda>(m, c) t. combine m c t) (zip ms cs) ts)
       (zip mfcc_similarity chroma_similarity) tempo_sim"

text \<open>Lines 151 to 174 of \<open>main\<close>; an \<open>Inl\<close> is the exception that makes \<open>main\<close> exit.\<close>

definition build_similarity ::
  "(real list \<Rightarrow> real list \<Rightarrow> real) \<Rightarrow> (real list list \<Rightarrow> real list list) \<Rightarrow> track list
     \<Rightarrow> exn + float64 list list" where
  "build_similarity cosine fit_transform df =
     (case vstack (map mfcc_start df) of Inl e \<Rightarrow> Inl e | Inr mfcc_start_matrix \<Rightarrow>
     (case vstack (map mfcc_end df) of Inl e \<Rightarrow> Inl e | Inr mfcc_end_matrix \<Rightarrow>
     (case vstack (map chroma_start df) of Inl e \<Rightarrow> Inl e | Inr chroma_start_matrix \<Rightarrow>
     (case vstack (map chroma_end df) of Inl e \<Rightarrow> Inl e | Inr chroma_end_matrix \<Rightarrow>
       (let mfcc_start_scaled = fit_transform mfcc_start_matrix;
            mfcc_end_scaled = fit_transform mfcc_end_matrix;
            chroma_start_scaled = fit_transform chroma_start_matrix;
            chroma_end_scaled = fit_transform chroma_end_matrix
        in
     (case cosine_similarity cosine mfcc_end_scaled mfcc_start_scaled of
        Inl e \<Rightarrow> Inl e | Inr mfcc_similarity \<Rightarrow>
     (case cosine_similarity cosine chroma_end_scaled chroma_start_scaled of
        Inl e \<Rightarrow> Inl e | Inr chroma_similarity \<Rightarrow>
     (case tempo_similarity df of Inl e \<Rightarrow> Inl e | Inr tempo_sim \<Rightarrow>
        Inr (combine_matrices mfcc_similarity chroma_similarity tempo_sim)))))))))"

text \<open>
  What the theorems about the matrix ask of the data and of the scaler. A data set is
  consistent when it has a row and, in every row, the two timbre vectors have one length
  and the two pitch-class vectors have one length (otherwise \<open>np.vstack\<close> or
  \<open>cosine_similarity\<close> raises). A scaler keeps the shape of the matrix it transforms, as
  \<open>StandardScaler\<close> does.
\<close>

definition keeps_shape :: "(real list list \<Rightarrow> real list list) \<Rightarrow> bool" where
  "keeps_shape fit_transform \<longleftrightarrow> (\<forall>M. map length (fit_transform M) = map length M)"

definition consistent :: "nat \<Rightarrow> nat \<Rightarrow> track list \<Rightarrow> bool" where
  "consistent d1 d2 df \<longleftrightarrow>
     df \<noteq> [] \<and>
     (\<forall>r\<in>set df. length (mfcc_start r) = d1 \<and> length (mfcc_end r) = d1 \<and>
                  length (chroma_start r) = d2 \<and> length (chroma_end r) = d2)"

text \<open>
  The tempo columns are finite when every cell is a number, and \<open>tempo_gap a b\<close> is then
  the exact distance between the ending tempo of \<open>a\<close> and the starting tempo of \<open>b\<close>.
\<close>

definition finite_tempo :: "track list \<Rightarrow> bool" where
  "finite_tempo df \<longleftrightarrow> (\<forall>r\<in>set df. is_Fin (tempo_start r) \<and> is_Fin (tempo_end r))"

definition tempo_gap :: "track \<Rightarrow> track \<Rightarrow> real" where
  "tempo_gap a b = \<bar>fval (tempo_end a) - fval (tempo_start b)\<bar>"

section \<open>Feature Scaler and cosine similarity, as the specification describes them\<close>

text \<open>
  Modelled from the spec: the Feature Scaler of section 4.3. The program calls
  \<open>StandardScaler().fit_transform\<close> of scikit-learn (lines 156 to 160), whose code is not
  in the repository. The definitions follow the specification's words over the reals:
  the column mean, the population variance (divide by \<open>N\<close>), the standard deviation.
\<close>

definition column_mean :: "real list \<Rightarrow> real" where
  "column_mean xs = sum_list xs / real (length xs)"

definition column_variance :: "real list \<Rightarrow> real" where
  "column_variance xs = sum_list (map (\<lambda>x. (x - column_mean xs)\<^sup>2) xs) / real (length xs)"

definition column_std :: "real list \<Rightarrow> real" where
  "column_std xs = sqrt (column_variance xs)"

text \<open>
  Modelled from the spec: the transform of one column of section 4.3, subtract the mean and
  divide by the standard deviation; a column of variance zero gives zeros, so that nothing
  is divided by zero.
\<close>

definition scale_column :: "real list \<Rightarrow> real list" where
  "scale_column xs =
     (if column_variance xs = 0 then map (\<lambda>x. 0) xs
      else map (\<lambda>x. (x - column_mean xs) / column_std xs) xs)"

definition column :: "real list list \<Rightarrow> nat \<Rightarrow> real list" where
  "column M j = map (\<lambda>row. row ! j) M"

text \<open>
  Modelled from the spec: \<open>standardize\<close> of section 4.3, which transforms every column of
  a matrix of rows on its own.
\<close>

definition standardize :: "real list list \<Rightarrow> real list list" where
  "standardize M =
     map (\<lambda>i. map (\<lambda>j. scale_column (column M j) ! i) [0..<n_columns M]) [0..<length M]"

text \<open>
  Modelled from the spec: the cosine similarity of section 4.4, step 2. The program calls
  \<open>cosine_similarity\<close> of scikit-learn (lines 163 and 164), whose code is not in the
  repository. It is the dot product divided by the product of the two L2 norms; when a
  norm is zero the similarity is defined as \<open>0\<close>. A division by zero would give \<open>None\<close>.
\<close>

definition dot :: "real list \<Rightarrow> real list \<Rightarrow> real" where
  "dot x y = sum_list (map2 (*) x y)"

definition l2_norm :: "real list \<Rightarrow> real" where
  "l2_norm x = sqrt (dot x x)"

definition guarded_divide :: "real \<Rightarrow> real \<Rightarrow> real option" where
  "guarded_divide a b = (if b = 0 then None else Some (a / b))"

definition cosine_spec :: "real list \<Rightarrow> real list \<Rightarrow> real option" where
  "cosine_spec x y =
     (if l2_norm x = 0 \<or> l2_norm y = 0 then Some 0
      else guarded_divide (dot x y) (l2_norm x * l2_norm y))"

section \<open>The normaliser as the specification words it\<close>

text \<open>
  The specification's steps, taken literally, for comparison with \<open>normalize_song_name\<close>:
  a bracketed part ends at the first closing bracket of the kind that matches its opening
  bracket, and only alphanumeric characters and whitespace are kept.
\<close>

definition partner :: "nat \<Rightarrow> nat" where
  "partner c = (if c = 40 then 41 else 93)"

fun close_same :: "nat \<Rightarrow> ustring \<Rightarrow> ustring option" where
  "close_same k [] = None"
| "close_same k (c # cs) = (if c = k then Some cs else close_same k cs)"

function remove_enclosed :: "ustring \<Rightarrow> ustring" where
  "remove_enclosed [] = []"
| "remove_enclosed (c # cs) =
     (if is_open c
      then (case close_same (partner c) cs of
              Some r \<Rightarrow> remove_enclosed r
            | None \<Rightarrow> c # remove_enclosed cs)
      else c # remove_enclosed cs)"
  by pat_completeness auto
termination
proof (relation "measure length")
  show "wf (measure length)" by simp
next
  fix c :: nat and cs r :: ustring
  assume "close_same (partner c) cs = Some r"
  then have "length r < Suc (length cs)"
    by (induction cs) (auto split: if_splits)
  then show "(r, c # cs) \<in> measure length" by simp
qed auto

definition normalize_spec :: "unicode_db \<Rightarrow> ustring \<Rightarrow> ustring" where
  "normalize_spec db s =
     strip (sub_spaces (str_lower db
       (filter (\<lambda>c. str_isalnum db c \<or> isspace c) (remove_enclosed s))))"

text \<open>
  A character table agrees with ASCII when it classifies and lower-cases the code points
  below 128 as ASCII does; CPython's does.
\<close>

definition agrees_on_ascii :: "unicode_db \<Rightarrow> bool" where
  "agrees_on_ascii db \<longleftrightarrow>
     (\<forall>c<128. str_isalnum db c = ascii_isalnum c) \<and>
     (\<forall>s. (\<forall>c\<in>set s. c < 128) \<longrightarrow> str_lower db s = concat (map lower_char s))"

section \<open>Auxiliary notions of the proofs\<close>

text \<open>\<open>rstrip\<close> removes trailing whitespace, so that \<open>strip\<close> is \<open>rstrip\<close> after \<open>dropWhile\<close>.\<close>

definition rstrip :: "ustring \<Rightarrow> ustring" where
  "rstrip s = rev (dropWhile isspace (rev s))"

text \<open>The lower case of one ASCII character.\<close>

definition ascii_lower :: "nat \<Rightarrow> nat" where
  "ascii_lower c = (if 65 \<le> c \<and> c \<le> 90 then c + 32 else c)"

text \<open>An ASCII character that \<open>normalize_song_name\<close> keeps and lower-casing leaves alone.\<close>

definition settled :: "nat \<Rightarrow> bool" where
  "settled c \<longleftrightarrow> c < 128 \<and> (ascii_isalnum c \<or> c = 95 \<or> isspace c) \<and> lower_char c = [c]"

section \<open>Properties of the Name Normalizer\<close>


lemmas string_eval = normalize_song_name_def ustr_def excerpt_db_def sub_special_def strip_def
  is_open_def is_close_def isspace_def is_word_def ascii_isalnum_def lower_char_def

lemma isspace_32 [simp]: "isspace 32"
  by (simp add: isspace_def)


lemma rstrip_Nil [simp]: "rstrip [] = []"
  by (simp add: rstrip_def)

lemma rstrip_Cons:
  "rstrip (c # cs) = (if \<forall>x\<in>set (c # cs). isspace x then [] else c # rstrip cs)"
  by (auto simp: rstrip_def dropWhile_append)

lemma rstrip_all: "\<forall>x\<in>set s. isspace x \<Longrightarrow> rstrip s = []"
  by (simp add: rstrip_def)

lemma strip_rstrip: "strip s = rstrip (dropWhile isspace s)"
  by (simp add: strip_def rstrip_def)

lemma rstrip_dropWhile: "dropWhile isspace (rstrip s) = rstrip (dropWhile isspace s)"
proof (induction s)
  case Nil
  show ?case by simp
next
  case (Cons c cs)
  show ?case
  proof (cases "\<forall>x\<in>set (c # cs). isspace x")
    case True
    then have e: "dropWhile isspace (c # cs) = []" by simp
    from True show ?thesis unfolding e by (simp add: rstrip_all)
  next
    case False
    then show ?thesis using Cons by (auto simp: rstrip_Cons)
  qed
qed

lemma strip_Nil [simp]: "strip [] = []"
  by (simp add: strip_def)

lemma rstrip_idem: "rstrip (rstrip s) = rstrip s"
  by (simp add: rstrip_def)

lemma strip_idem: "strip (strip s) = strip s"
  by (simp add: strip_rstrip rstrip_dropWhile rstrip_idem)

lemma dropWhile_all_iff:
  "(\<forall>x\<in>set (dropWhile P cs). P x) \<longleftrightarrow> (\<forall>x\<in>set cs. P x)"
  by (metis dropWhile_eq_Nil_conv dropWhile_idem)

lemma sub_spaces_all_space:
  "(\<forall>x\<in>set (sub_spaces s). isspace x) \<longleftrightarrow> (\<forall>x\<in>set s. isspace x)"
proof (induction s rule: sub_spaces.induct)
  case 1
  show ?case by simp
next
  case (2 c cs)
  show ?case
  proof (cases "isspace c")
    case True
    with 2 show ?thesis by (simp add: dropWhile_all_iff)
  next
    case False
    then show ?thesis by simp
  qed
qed

lemma sub_spaces_dropWhile:
  "dropWhile isspace (sub_spaces s) = sub_spaces (dropWhile isspace s)"
  by (induction s rule: sub_spaces.induct) simp_all

lemma sub_spaces_idem: "sub_spaces (sub_spaces s) = sub_spaces s"
  by (induction s rule: sub_spaces.induct) (simp_all add: sub_spaces_dropWhile)

lemma sub_spaces_rstrip: "sub_spaces (rstrip s) = rstrip (sub_spaces s)"
proof (induction s rule: sub_spaces.induct)
  case 1
  show ?case by simp
next
  case (2 c cs)
  show ?case
  proof (cases "isspace c")
    case False
    then show ?thesis using 2 sub_spaces_all_space [of cs]
      by (auto simp: rstrip_Cons)
  next
    case True
    show ?thesis
    proof (cases "\<forall>x\<in>set cs. isspace x")
      case all: True
      then have e: "dropWhile isspace cs = []" by simp
      show ?thesis using all True by (simp add: rstrip_Cons e)
    next
      case some: False
      then have ne: "\<not> (\<forall>x\<in>set (dropWhile isspace cs). isspace x)"
        by (simp add: dropWhile_all_iff)
      have "sub_spaces (rstrip (c # cs)) = 32 # sub_spaces (dropWhile isspace (rstrip cs))"
        using True some by (simp add: rstrip_Cons)
      also have "\<dots> = 32 # rstrip (sub_spaces (dropWhile isspace cs))"
        using 2 True by (simp add: rstrip_dropWhile)
      also have "\<dots> = rstrip (sub_spaces (c # cs))"
        using True ne by (simp add: rstrip_Cons sub_spaces_all_space)
      finally show ?thesis .
    qed
  qed
qed

lemma sub_spaces_strip: "sub_spaces (strip s) = strip (sub_spaces s)"
  by (simp add: strip_rstrip sub_spaces_rstrip sub_spaces_dropWhile)

lemma close_match_span:
  "is_close d \<Longrightarrow> \<forall>x\<in>set mid. \<not> is_close x \<and> x \<noteq> 10 \<Longrightarrow>
   close_match (mid @ d # rest) = Some rest"
  by (induction mid) auto

lemma close_match_none:
  "\<forall>x\<in>set mid. \<not> is_close x \<and> x \<noteq> 10 \<Longrightarrow>
   close_match mid = None \<and> close_match (mid @ 10 # rest) = None"
  by (induction mid) (auto simp: is_close_def)

lemma close_match_suffix: "close_match cs = Some r \<Longrightarrow> set r \<subseteq> set cs"
  by (induction cs) (auto split: if_splits)

lemma set_sub_bracketed: "set (sub_bracketed s) \<subseteq> set s"
proof (induction s rule: sub_bracketed.induct)
  case 1
  show ?case by simp
next
  case (2 c cs)
  show ?case
  proof (cases "is_open c")
    case False
    with 2 show ?thesis by auto
  next
    case True
    show ?thesis
    proof (cases "close_match cs")
      case None
      with True 2 show ?thesis by auto
    next
      case (Some r)
      with True 2 close_match_suffix [OF Some] show ?thesis by auto
    qed
  qed
qed

lemma sub_bracketed_id: "\<forall>c\<in>set s. \<not> is_open c \<Longrightarrow> sub_bracketed s = s"
  by (induction s) auto

lemma set_strip: "set (strip s) \<subseteq> set s"
proof -
  have "set (strip s) = set (dropWhile isspace (rev (dropWhile isspace s)))"
    by (simp add: strip_def)
  also have "\<dots> \<subseteq> set (rev (dropWhile isspace s))"
    by (rule set_dropWhileD [THEN subsetI]) 
  also have "\<dots> \<subseteq> set s"
    using set_dropWhileD [of _ isspace s] by auto
  finally show ?thesis .
qed

lemma set_sub_spaces: "set (sub_spaces s) \<subseteq> insert 32 (set s)"
proof (induction s rule: sub_spaces.induct)
  case 1
  show ?case by simp
next
  case (2 c cs)
  show ?case
  proof (cases "isspace c")
    case True
    with 2 have "set (sub_spaces (dropWhile isspace cs)) \<subseteq> insert 32 (set (dropWhile isspace cs))"
      by simp
    moreover have "set (dropWhile isspace cs) \<subseteq> set cs"
      using set_dropWhileD [of _ isspace cs] by auto
    ultimately show ?thesis using True by auto
  next
    case False
    with 2 show ?thesis by auto
  qed
qed

lemma normalize_fixpoint:
  assumes chars: "\<forall>c\<in>set (normalize_song_name db x). (is_word db c \<or> isspace c) \<and> \<not> is_open c"
    and low: "str_lower db (normalize_song_name db x) = normalize_song_name db x"
  shows "normalize_song_name db (PyStr (normalize_song_name db x)) = normalize_song_name db x"
proof -
  let ?r = "normalize_song_name db x"
  have stripped: "strip ?r = ?r"
    by (cases x) (simp_all add: normalize_song_name_def sub_spaces_strip strip_idem)
  have collapsed: "sub_spaces ?r = ?r"
    by (cases x) (simp_all add: normalize_song_name_def sub_spaces_idem)
  have "sub_bracketed ?r = ?r"
    using chars by (simp add: sub_bracketed_id)
  moreover have "sub_special db ?r = ?r"
    using chars by (simp add: sub_special_def)
  ultimately have "normalize_song_name db (PyStr ?r) = sub_spaces (strip (str_lower db ?r))"
    by (simp add: normalize_song_name_def)
  then show ?thesis by (simp add: low stripped collapsed)
qed



text \<open>On ASCII input the result depends on the ASCII part of the tables only.\<close>

lemma normalize_ascii_cong:
  assumes db: "agrees_on_ascii db" and s: "\<forall>c\<in>set s. c < 128"
  shows "normalize_song_name db (PyStr s) = normalize_song_name excerpt_db (PyStr s)"
proof -
  let ?b = "sub_bracketed s"
  have b: "\<forall>c\<in>set ?b. c < 128"
    using s set_sub_bracketed [of s] by auto
  have word: "\<forall>c\<in>set ?b. is_word db c = is_word excerpt_db c"
    using b db by (auto simp: agrees_on_ascii_def is_word_def excerpt_db_def)
  have f: "sub_special db ?b = sub_special excerpt_db ?b"
    unfolding sub_special_def using word by (auto intro: filter_cong)
  have "\<forall>c\<in>set (sub_special excerpt_db ?b). c < 128"
    using b by (simp add: sub_special_def)
  then have "str_lower db (sub_special excerpt_db ?b)
      = str_lower excerpt_db (sub_special excerpt_db ?b)"
    using db by (simp add: agrees_on_ascii_def excerpt_db_def)
  with f show ?thesis by (simp add: normalize_song_name_def)
qed

lemma excerpt_agrees: "agrees_on_ascii excerpt_db"
  by (auto simp: agrees_on_ascii_def excerpt_db_def)


lemma lower_char_settled:
  "c < 128 \<Longrightarrow> ascii_isalnum c \<or> c = 95 \<or> isspace c \<Longrightarrow> \<forall>d\<in>set (lower_char c). settled d"
  by (auto simp: settled_def lower_char_def ascii_isalnum_def isspace_def)


lemma normalize_ascii_settled:
  assumes s: "\<forall>c\<in>set s. c < 128"
  shows "\<forall>c\<in>set (normalize_song_name excerpt_db (PyStr s)). settled c"
proof -
  let ?f = "sub_special excerpt_db (sub_bracketed s)"
  have b: "\<forall>c\<in>set (sub_bracketed s). c < 128"
    using s set_sub_bracketed [of s] by blast
  have "\<forall>c\<in>set ?f. c < 128 \<and> (ascii_isalnum c \<or> c = 95 \<or> isspace c)"
  proof
    fix c assume "c \<in> set ?f"
    then have m: "c \<in> set (sub_bracketed s)" and w: "is_word excerpt_db c \<or> isspace c"
      by (simp_all add: sub_special_def)
    from m b have lt: "c < 128" by simp
    then have "c \<noteq> 304" by simp
    with w have "ascii_isalnum c \<or> c = 95 \<or> isspace c"
      by (simp add: is_word_def excerpt_db_def)
    with lt show "c < 128 \<and> (ascii_isalnum c \<or> c = 95 \<or> isspace c)" by simp
  qed
  then have l: "\<forall>d\<in>set (str_lower excerpt_db ?f). settled d"
    using lower_char_settled by (simp add: excerpt_db_def) blast
  have "settled 32"
    by (simp add: settled_def lower_char_def isspace_def)
  moreover have "set (normalize_song_name excerpt_db (PyStr s))
      \<subseteq> insert 32 (set (str_lower excerpt_db ?f))"
    using set_sub_spaces [of "strip (str_lower excerpt_db ?f)"]
      set_strip [of "str_lower excerpt_db ?f"]
    by (auto simp: normalize_song_name_def)
  ultimately show ?thesis using l by auto
qed


lemma lower_settled: "\<forall>c\<in>set r. settled c \<Longrightarrow> concat (map lower_char r) = r"
proof (induction r)
  case Nil
  show ?case by simp
next
  case (Cons c r)
  then have "lower_char c = [c]" by (simp add: settled_def)
  with Cons show ?case by simp
qed

lemma normalize_ascii_idem:
  assumes db: "agrees_on_ascii db" and s: "\<forall>c\<in>set s. c < 128"
  shows "normalize_song_name db (PyStr (normalize_song_name db (PyStr s)))
    = normalize_song_name db (PyStr s)"
proof -
  let ?r = "normalize_song_name db (PyStr s)"
  have r: "?r = normalize_song_name excerpt_db (PyStr s)"
    by (rule normalize_ascii_cong [OF db s])
  have st: "\<forall>c\<in>set ?r. settled c"
    unfolding r by (rule normalize_ascii_settled [OF s])
  then have ascii: "\<forall>c\<in>set ?r. c < 128"
    by (simp add: settled_def)
  have "\<forall>c\<in>set ?r. (is_word db c \<or> isspace c) \<and> \<not> is_open c"
  proof
    fix c assume "c \<in> set ?r"
    with st have c: "settled c" by simp
    then have "str_isalnum db c = ascii_isalnum c"
      using db by (simp add: agrees_on_ascii_def settled_def)
    moreover from c have "ascii_isalnum c \<or> c = 95 \<or> isspace c"
      by (simp add: settled_def)
    moreover have "\<not> is_open c"
    proof
      assume "is_open c"
      then have "c = 40 \<or> c = 91" by (simp add: is_open_def)
      then have "\<not> (ascii_isalnum c \<or> c = 95 \<or> isspace c)"
        by (auto simp: ascii_isalnum_def isspace_def)
      with c show False by (simp add: settled_def)
    qed
    ultimately show "(is_word db c \<or> isspace c) \<and> \<not> is_open c"
      by (auto simp: is_word_def)
  qed
  moreover have "str_lower db ?r = ?r"
    using db ascii st by (simp add: agrees_on_ascii_def lower_settled)
  ultimately show ?thesis by (rule normalize_fixpoint)
qed




lemma sub_bracketed_prefix:
  "\<forall>p\<in>set pre. \<not> is_open p \<Longrightarrow> sub_bracketed (pre @ s) = pre @ sub_bracketed s"
  by (induction pre) auto

text \<open>
  C4 (amended). On a string, \<open>normalize_song_name\<close> yields what these steps yield, in
  this order: drop every span that runs from an opening \<open>(\<close> or \<open>[\<close> to the first
  following \<open>)\<close> or \<open>]\<close>, of either kind, with no line feed before it (an opening bracket
  followed by a line feed or by the end of the string before any closing bracket stays);
  drop every character that is neither alphanumeric, nor the underscore, nor whitespace;
  lower-case; turn every run of whitespace into one space; trim. On a value that is not a
  string it yields the empty string.
\<close>

theorem normalize_song_name_steps:
  "normalize_song_name db (PyStr s) =
     strip (sub_spaces (str_lower db
       (filter (\<lambda>c. str_isalnum db c \<or> c = 95 \<or> isspace c) (sub_bracketed s))))
   \<and> ((\<forall>t. x \<noteq> PyStr t) \<longrightarrow> normalize_song_name db x = [])
   \<and> ((\<forall>p\<in>set pre. \<not> is_open p) \<and> is_open c \<and> (\<forall>m\<in>set mid. \<not> is_close m \<and> m \<noteq> 10) \<longrightarrow>
        (is_close d \<longrightarrow> sub_bracketed (pre @ c # mid @ d # rest) = pre @ sub_bracketed rest)
        \<and> sub_bracketed (pre @ c # mid @ 10 # rest) = pre @ c # sub_bracketed (mid @ 10 # rest)
        \<and> sub_bracketed (pre @ c # mid) = pre @ c # sub_bracketed mid)"
proof (intro conjI impI)
  show "normalize_song_name db (PyStr s) =
     strip (sub_spaces (str_lower db
       (filter (\<lambda>c. str_isalnum db c \<or> c = 95 \<or> isspace c) (sub_bracketed s))))"
    by (simp add: normalize_song_name_def sub_spaces_strip sub_special_def is_word_def disj_assoc)
next
  assume "\<forall>t. x \<noteq> PyStr t"
  then show "normalize_song_name db x = []"
    by (cases x) (simp_all add: normalize_song_name_def)
next
  assume h: "(\<forall>p\<in>set pre. \<not> is_open p) \<and> is_open c \<and> (\<forall>m\<in>set mid. \<not> is_close m \<and> m \<noteq> 10)"
  assume d: "is_close d"
  from h d have "close_match (mid @ d # rest) = Some rest"
    by (simp add: close_match_span)
  with h show "sub_bracketed (pre @ c # mid @ d # rest) = pre @ sub_bracketed rest"
    by (simp add: sub_bracketed_prefix)
next
  assume h: "(\<forall>p\<in>set pre. \<not> is_open p) \<and> is_open c \<and> (\<forall>m\<in>set mid. \<not> is_close m \<and> m \<noteq> 10)"
  then have "close_match (mid @ 10 # rest) = None"
    using close_match_none [of mid rest] by simp
  with h show "sub_bracketed (pre @ c # mid @ 10 # rest) = pre @ c # sub_bracketed (mid @ 10 # rest)"
    by (simp add: sub_bracketed_prefix)
next
  assume h: "(\<forall>p\<in>set pre. \<not> is_open p) \<and> is_open c \<and> (\<forall>m\<in>set mid. \<not> is_close m \<and> m \<noteq> 10)"
  then have "close_match mid = None"
    using close_match_none [of mid rest] by simp
  with h show "sub_bracketed (pre @ c # mid) = pre @ c # sub_bracketed mid"
    by (simp add: sub_bracketed_prefix)
qed

theorem normalize_song_name_steps_witness:
  "normalize_song_name excerpt_db (PyStr (ustr ''Song  (Live) A_b!! '')) = ustr ''song a_b''
   \<and> normalize_song_name excerpt_db PyNone = []
   \<and> sub_bracketed (ustr ''a(b]c)d'') = ustr ''ac)d''
   \<and> sub_bracketed [97, 40, 98, 10, 99, 41, 100] = [97, 40, 98, 10, 99, 41, 100]
   \<and> sub_bracketed (ustr ''a(b'') = ustr ''a(b''"
  using normalize_song_name_steps [where db = excerpt_db and s = "ustr ''Song  (Live) A_b!! ''"
      and x = PyNone and pre = "[97]" and c = 40 and mid = "[98]" and d = 93
      and rest = "[99, 41, 100]"]
  by (simp add: string_eval)

text \<open>
  C4 as stated fails: the underscore is kept though it is not alphanumeric, and a span
  opened by \<open>(\<close> ends at \<open>]\<close>.
\<close>

theorem normalize_spec_counterexample:
  "normalize_song_name excerpt_db (PyStr (ustr ''a_b'')) = ustr ''a_b''
   \<and> normalize_spec excerpt_db (ustr ''a_b'') = ustr ''ab''
   \<and> normalize_song_name excerpt_db (PyStr (ustr ''a(b]c)d'')) = ustr ''acd''
   \<and> normalize_spec excerpt_db (ustr ''a(b]c)d'') = ustr ''ad''"
  by (simp add: string_eval normalize_spec_def partner_def)



text \<open>Lower-casing an ASCII string commutes with the steps of the normaliser.\<close>

lemma lower_ascii: "\<forall>c\<in>set s. c < 128 \<Longrightarrow> concat (map lower_char s) = map ascii_lower s"
  by (induction s) (auto simp: lower_char_def ascii_lower_def)

lemma ascii_lower_classes:
  "is_open (ascii_lower c) = is_open c"
  "is_close (ascii_lower c) = is_close c"
  "ascii_lower c = 10 \<longleftrightarrow> c = 10"
  "isspace (ascii_lower c) = isspace c"
  "ascii_isalnum (ascii_lower c) = ascii_isalnum c"
  "ascii_lower c = 95 \<longleftrightarrow> c = 95"
  "ascii_lower c = 304 \<longleftrightarrow> c = 304"
  "ascii_lower (ascii_lower c) = ascii_lower c"
  by (auto simp: ascii_lower_def is_open_def is_close_def isspace_def ascii_isalnum_def)

lemma ascii_lower_less: "c < 128 \<Longrightarrow> ascii_lower c < 128"
  by (auto simp: ascii_lower_def)

lemma close_match_lower:
  "close_match (map ascii_lower cs) = map_option (map ascii_lower) (close_match cs)"
  by (induction cs) (simp_all add: ascii_lower_classes)

lemma sub_bracketed_lower:
  "sub_bracketed (map ascii_lower s) = map ascii_lower (sub_bracketed s)"
proof (induction s rule: sub_bracketed.induct)
  case 1
  show ?case by simp
next
  case (2 c cs)
  show ?case
  proof (cases "is_open c")
    case False
    with 2 show ?thesis by (simp add: ascii_lower_classes)
  next
    case True
    show ?thesis
    proof (cases "close_match cs")
      case None
      with True 2 show ?thesis
        by (simp add: ascii_lower_classes close_match_lower)
    next
      case (Some r)
      with True 2 show ?thesis
        by (simp add: ascii_lower_classes close_match_lower)
    qed
  qed
qed

lemma sub_special_lower:
  "sub_special excerpt_db (map ascii_lower s) = map ascii_lower (sub_special excerpt_db s)"
  by (induction s)
     (simp_all add: sub_special_def is_word_def excerpt_db_def ascii_lower_classes)

lemma normalize_lower:
  assumes s: "\<forall>c\<in>set s. c < 128"
  shows "normalize_song_name excerpt_db (PyStr (concat (map lower_char s)))
     = normalize_song_name excerpt_db (PyStr s)"
proof -
  let ?f = "sub_special excerpt_db (sub_bracketed s)"
  have f: "\<forall>c\<in>set ?f. c < 128"
    using s set_sub_bracketed [of s] by (auto simp: sub_special_def)
  then have lf: "\<forall>c\<in>set (map ascii_lower ?f). c < 128"
    by (simp add: ascii_lower_less)
  have "str_lower excerpt_db (map ascii_lower ?f) = map ascii_lower (map ascii_lower ?f)"
    using lower_ascii [OF lf] by (simp add: excerpt_db_def)
  also have "\<dots> = map ascii_lower ?f"
    by (simp add: ascii_lower_classes comp_def)
  also have "\<dots> = str_lower excerpt_db ?f"
    using lower_ascii [OF f] by (simp add: excerpt_db_def)
  finally have "str_lower excerpt_db (map ascii_lower ?f) = str_lower excerpt_db ?f" .
  then show ?thesis
    by (simp add: normalize_song_name_def lower_ascii [OF s] sub_bracketed_lower
        sub_special_lower)
qed

lemma normalize_case_insensitive:
  assumes db: "agrees_on_ascii db" and s: "\<forall>c\<in>set s. c < 128" and t: "\<forall>c\<in>set t. c < 128"
    and e: "concat (map lower_char s) = concat (map lower_char t)"
  shows "normalize_song_name db (PyStr s) = normalize_song_name db (PyStr t)"
proof -
  have "normalize_song_name db (PyStr s) = normalize_song_name excerpt_db (PyStr s)"
    by (rule normalize_ascii_cong [OF db s])
  also have "\<dots> = normalize_song_name excerpt_db (PyStr (concat (map lower_char s)))"
    by (rule normalize_lower [OF s, symmetric])
  also have "\<dots> = normalize_song_name excerpt_db (PyStr (concat (map lower_char t)))"
    by (simp only: e)
  also have "\<dots> = normalize_song_name excerpt_db (PyStr t)"
    by (rule normalize_lower [OF t])
  also have "\<dots> = normalize_song_name db (PyStr t)"
    by (rule normalize_ascii_cong [OF db t, symmetric])
  finally show ?thesis .
qed


text \<open>
  C8 (amended). \<open>normalize(normalize(x)) = normalize(x)\<close> holds whenever \<open>normalize(x)\<close>
  consists of word characters and whitespace only and is left unchanged by lower-casing;
  this is so for every ASCII string, under every character table that agrees with ASCII.
  On ASCII strings normalisation is case-insensitive: two ASCII strings with the same
  lower case normalise to the same string. Bracketed text is dropped:
  \<open>normalize("Song (Live) !!") = normalize("song")\<close>.
\<close>

theorem normalize_idempotent:
  "((\<forall>c\<in>set (normalize_song_name db x). (is_word db c \<or> isspace c) \<and> \<not> is_open c)
      \<and> str_lower db (normalize_song_name db x) = normalize_song_name db x
      \<longrightarrow> normalize_song_name db (PyStr (normalize_song_name db x)) = normalize_song_name db x)
   \<and> (agrees_on_ascii db \<and> (\<forall>c\<in>set s. c < 128)
      \<longrightarrow> normalize_song_name db (PyStr (normalize_song_name db (PyStr s)))
          = normalize_song_name db (PyStr s))
   \<and> (agrees_on_ascii db \<and> (\<forall>c\<in>set s. c < 128) \<and> (\<forall>c\<in>set t. c < 128)
        \<and> concat (map lower_char s) = concat (map lower_char t)
      \<longrightarrow> normalize_song_name db (PyStr s) = normalize_song_name db (PyStr t))
   \<and> (agrees_on_ascii db
      \<longrightarrow> normalize_song_name db (PyStr (ustr ''Song (Live) !!''))
          = normalize_song_name db (PyStr (ustr ''song'')))"
proof (intro conjI impI)
  assume "(\<forall>c\<in>set (normalize_song_name db x). (is_word db c \<or> isspace c) \<and> \<not> is_open c)
      \<and> str_lower db (normalize_song_name db x) = normalize_song_name db x"
  then show "normalize_song_name db (PyStr (normalize_song_name db x)) = normalize_song_name db x"
    by (simp add: normalize_fixpoint)
next
  assume "agrees_on_ascii db \<and> (\<forall>c\<in>set s. c < 128)"
  then show "normalize_song_name db (PyStr (normalize_song_name db (PyStr s)))
          = normalize_song_name db (PyStr s)"
    by (simp add: normalize_ascii_idem)
next
  assume "agrees_on_ascii db \<and> (\<forall>c\<in>set s. c < 128) \<and> (\<forall>c\<in>set t. c < 128)
        \<and> concat (map lower_char s) = concat (map lower_char t)"
  then show "normalize_song_name db (PyStr s) = normalize_song_name db (PyStr t)"
    using normalize_case_insensitive [of db s t] by blast
next
  assume db: "agrees_on_ascii db"
  have a: "\<forall>c\<in>set (ustr ''Song (Live) !!''). c < 128" by (simp add: ustr_def)
  have b: "\<forall>c\<in>set (ustr ''song''). c < 128" by (simp add: ustr_def)
  have "normalize_song_name excerpt_db (PyStr (ustr ''Song (Live) !!''))
      = normalize_song_name excerpt_db (PyStr (ustr ''song''))"
    by (simp add: string_eval)
  then show "normalize_song_name db (PyStr (ustr ''Song (Live) !!''))
          = normalize_song_name db (PyStr (ustr ''song''))"
    by (simp add: normalize_ascii_cong [OF db a] normalize_ascii_cong [OF db b])
qed

theorem normalize_idempotent_witness:
  "agrees_on_ascii excerpt_db
   \<and> normalize_song_name excerpt_db (PyStr (ustr ''  The_Song [x) LIVE  '')) = ustr ''the_song live''
   \<and> normalize_song_name excerpt_db (PyStr (ustr ''the_song live'')) = ustr ''the_song live''
   \<and> normalize_song_name excerpt_db (PyStr (ustr ''The SONG (a)''))
       = normalize_song_name excerpt_db (PyStr (ustr ''tHE Song (A)''))
   \<and> normalize_song_name excerpt_db (PyStr (ustr ''Song (Live) !!''))
       = normalize_song_name excerpt_db (PyStr (ustr ''song''))"
proof -
  let ?x = "ustr ''  The_Song [x) LIVE  ''"
  have e: "normalize_song_name excerpt_db (PyStr ?x) = ustr ''the_song live''"
    by (simp add: string_eval)
  have h1: "(\<forall>c\<in>set (normalize_song_name excerpt_db (PyStr ?x)).
       (is_word excerpt_db c \<or> isspace c) \<and> \<not> is_open c)
     \<and> str_lower excerpt_db (normalize_song_name excerpt_db (PyStr ?x))
       = normalize_song_name excerpt_db (PyStr ?x)"
    unfolding e by (simp add: string_eval)
  have h3: "agrees_on_ascii excerpt_db \<and> (\<forall>c\<in>set (ustr ''The SONG (a)''). c < 128)
      \<and> (\<forall>c\<in>set (ustr ''tHE Song (A)''). c < 128)
      \<and> concat (map lower_char (ustr ''The SONG (a)''))
        = concat (map lower_char (ustr ''tHE Song (A)''))"
    by (simp add: excerpt_agrees ustr_def lower_char_def)
  note t1 = normalize_idempotent [where db = excerpt_db and x = "PyStr ?x"
      and s = "ustr ''The SONG (a)''" and t = "ustr ''tHE Song (A)''"]
  from t1 h1 have "normalize_song_name excerpt_db (PyStr (normalize_song_name excerpt_db (PyStr ?x)))
      = normalize_song_name excerpt_db (PyStr ?x)" by blast
  then have a: "normalize_song_name excerpt_db (PyStr (ustr ''the_song live'')) = ustr ''the_song live''"
    unfolding e .
  from t1 h3 have b: "normalize_song_name excerpt_db (PyStr (ustr ''The SONG (a)''))
       = normalize_song_name excerpt_db (PyStr (ustr ''tHE Song (A)''))" by blast
  from t1 excerpt_agrees have c: "normalize_song_name excerpt_db (PyStr (ustr ''Song (Live) !!''))
       = normalize_song_name excerpt_db (PyStr (ustr ''song''))" by blast
  from excerpt_agrees e a b c show ?thesis by blast
qed

text \<open>
  C8 as stated fails on its own example, \<open>"song"\<close> against \<open>"song live"\<close>, and on U+0130:
  its lower case ends in the combining mark U+0307, which a second pass removes, so that
  the result is not a fixed point, and U+0130 and its lower case, which lower-case alike,
  normalise differently.
\<close>

theorem normalize_idempotent_counterexample:
  "normalize_song_name excerpt_db (PyStr (ustr ''Song (Live) !!''))
     \<noteq> normalize_song_name excerpt_db (PyStr (ustr ''song live''))
   \<and> normalize_song_name excerpt_db (PyStr (normalize_song_name excerpt_db (PyStr [304])))
     \<noteq> normalize_song_name excerpt_db (PyStr [304])
   \<and> str_lower excerpt_db [304] = str_lower excerpt_db [105, 775]
   \<and> normalize_song_name excerpt_db (PyStr [304])
     \<noteq> normalize_song_name excerpt_db (PyStr [105, 775])"
  by (simp add: string_eval)

section \<open>Properties of the Name Resolver\<close>


lemma py_in_iff: "py_in a b \<longleftrightarrow> (\<exists>p s. b = p @ a @ s)"
proof (induction b)
  case Nil
  show ?case by auto
next
  case (Cons c cs)
  show ?case
  proof
    assume "py_in a (c # cs)"
    then consider "prefix a (c # cs)" | "py_in a cs" by auto
    then show "\<exists>p s. c # cs = p @ a @ s"
    proof cases
      case 1
      then obtain s where "c # cs = a @ s" by (auto simp: prefix_def)
      then have "c # cs = [] @ a @ s" by simp
      then show ?thesis by blast
    next
      case 2
      with Cons obtain p s where "cs = p @ a @ s" by auto
      then have "c # cs = (c # p) @ a @ s" by simp
      then show ?thesis by blast
    qed
  next
    assume "\<exists>p s. c # cs = p @ a @ s"
    then obtain p s where e: "c # cs = p @ a @ s" by auto
    show "py_in a (c # cs)"
    proof (cases p)
      case Nil
      with e have "prefix a (c # cs)" by (simp add: prefix_def)
      then show ?thesis by simp
    next
      case (Cons x p')
      with e have "cs = p' @ a @ s" by simp
      with Cons.IH show ?thesis by auto
    qed
  qed
qed

text \<open>What the loop leaves in its two variables.\<close>

lemma scan_result:
  "scan nt (enumerate k cs) (bi, bs) = (bi', bs') \<Longrightarrow>
     (bi' = bi \<and> bs' = bs \<and> (\<forall>i<length cs. match_score nt (cs ! i) \<le> bs))
   \<or> (\<exists>j<length cs. bi' = int (k + j) \<and> bs' = match_score nt (cs ! j) \<and> bs < bs'
         \<and> (\<forall>i<j. match_score nt (cs ! i) < bs')
         \<and> (\<forall>i<length cs. match_score nt (cs ! i) \<le> bs'))"
proof (induction cs arbitrary: k bi bs)
  case Nil
  then show ?case by simp
next
  case (Cons c cs)
  let ?s = "match_score nt c"
  show ?case
  proof (cases "?s > bs")
    case False
    with Cons.prems have "scan nt (enumerate (Suc k) cs) (bi, bs) = (bi', bs')"
      by simp
    from Cons.IH [OF this] show ?thesis
    proof
      assume a: "bi' = bi \<and> bs' = bs \<and> (\<forall>i<length cs. match_score nt (cs ! i) \<le> bs)"
      have "\<forall>i<length (c # cs). match_score nt ((c # cs) ! i) \<le> bs"
      proof (intro allI impI)
        fix i assume "i < length (c # cs)"
        then show "match_score nt ((c # cs) ! i) \<le> bs"
          using a False by (cases i) auto
      qed
      with a show ?thesis by blast
    next
      assume "\<exists>j<length cs. bi' = int (Suc k + j) \<and> bs' = match_score nt (cs ! j) \<and> bs < bs'
         \<and> (\<forall>i<j. match_score nt (cs ! i) < bs')
         \<and> (\<forall>i<length cs. match_score nt (cs ! i) \<le> bs')"
      then obtain j where j: "j < length cs" "bi' = int (Suc k + j)"
        "bs' = match_score nt (cs ! j)" "bs < bs'"
        "\<forall>i<j. match_score nt (cs ! i) < bs'"
        "\<forall>i<length cs. match_score nt (cs ! i) \<le> bs'" by blast
      have lt: "\<forall>i<Suc j. match_score nt ((c # cs) ! i) < bs'"
      proof (intro allI impI)
        fix i assume "i < Suc j"
        then show "match_score nt ((c # cs) ! i) < bs'"
          using j False by (cases i) auto
      qed
      have le: "\<forall>i<length (c # cs). match_score nt ((c # cs) ! i) \<le> bs'"
      proof (intro allI impI)
        fix i assume "i < length (c # cs)"
        then show "match_score nt ((c # cs) ! i) \<le> bs'"
          using j False by (cases i) auto
      qed
      have "Suc j < length (c # cs) \<and> bi' = int (k + Suc j)
          \<and> bs' = match_score nt ((c # cs) ! Suc j) \<and> bs < bs'"
        using j by simp
      with lt le show ?thesis by blast
    qed
  next
    case True
    with Cons.prems have "scan nt (enumerate (Suc k) cs) (int k, ?s) = (bi', bs')"
      by simp
    from Cons.IH [OF this] show ?thesis
    proof
      assume a: "bi' = int k \<and> bs' = ?s \<and> (\<forall>i<length cs. match_score nt (cs ! i) \<le> ?s)"
      have le: "\<forall>i<length (c # cs). match_score nt ((c # cs) ! i) \<le> bs'"
      proof (intro allI impI)
        fix i assume "i < length (c # cs)"
        then show "match_score nt ((c # cs) ! i) \<le> bs'"
          using a by (cases i) auto
      qed
      have "0 < length (c # cs) \<and> bi' = int (k + 0) \<and> bs' = match_score nt ((c # cs) ! 0)
          \<and> bs < bs' \<and> (\<forall>i<0. match_score nt ((c # cs) ! i) < bs')"
        using a True by simp
      with le show ?thesis by blast
    next
      assume "\<exists>j<length cs. bi' = int (Suc k + j) \<and> bs' = match_score nt (cs ! j) \<and> ?s < bs'
         \<and> (\<forall>i<j. match_score nt (cs ! i) < bs')
         \<and> (\<forall>i<length cs. match_score nt (cs ! i) \<le> bs')"
      then obtain j where j: "j < length cs" "bi' = int (Suc k + j)"
        "bs' = match_score nt (cs ! j)" "?s < bs'"
        "\<forall>i<j. match_score nt (cs ! i) < bs'"
        "\<forall>i<length cs. match_score nt (cs ! i) \<le> bs'" by blast
      have lt: "\<forall>i<Suc j. match_score nt ((c # cs) ! i) < bs'"
      proof (intro allI impI)
        fix i assume "i < Suc j"
        then show "match_score nt ((c # cs) ! i) < bs'"
          using j by (cases i) auto
      qed
      have le: "\<forall>i<length (c # cs). match_score nt ((c # cs) ! i) \<le> bs'"
      proof (intro allI impI)
        fix i assume "i < length (c # cs)"
        then show "match_score nt ((c # cs) ! i) \<le> bs'"
          using j by (cases i) auto
      qed
      have "Suc j < length (c # cs) \<and> bi' = int (k + Suc j)
          \<and> bs' = match_score nt ((c # cs) ! Suc j) \<and> bs < bs'"
        using j True by simp
      with lt le show ?thesis by blast
    qed
  qed
qed


lemma resolve_name_cases:
  fixes db target names
  defines "sc \<equiv> \<lambda>i. match_score (normalize_song_name db target) (normalize_song_name db (names ! i))"
  shows "(resolve_name db target names = None \<and> (\<forall>i<length names. sc i < 3 / 10))
       \<or> (\<exists>k<length names. resolve_name db target names = Some k \<and> 3 / 10 \<le> sc k
             \<and> (\<forall>i<length names. sc i \<le> sc k) \<and> (\<forall>i<k. sc i < sc k))"
proof -
  let ?nt = "normalize_song_name db target"
  let ?cs = "map (normalize_song_name db) names"
  obtain bi bs where r: "scan ?nt (enumerate 0 ?cs) (- 1, 0) = (bi, bs)"
    by (cases "scan ?nt (enumerate 0 ?cs) (- 1, 0)") auto
  have res: "resolve_name db target names
      = (if bi = - 1 \<or> bs < 3 / 10 then None else Some (nat bi))"
    by (simp add: resolve_name_def r)
  have nth: "\<And>i. i < length names \<Longrightarrow> match_score ?nt (?cs ! i) = sc i"
    by (simp add: sc_def)
  from scan_result [OF r] show ?thesis
  proof
    assume a: "bi = - 1 \<and> bs = 0 \<and> (\<forall>i<length ?cs. match_score ?nt (?cs ! i) \<le> 0)"
    have "\<forall>i<length names. sc i < 3 / 10"
    proof (intro allI impI)
      fix i assume i: "i < length names"
      with a have "match_score ?nt (?cs ! i) \<le> 0" by simp
      with nth [OF i] show "sc i < 3 / 10" by simp
    qed
    with a res show ?thesis by simp
  next
    assume "\<exists>j<length ?cs. bi = int (0 + j) \<and> bs = match_score ?nt (?cs ! j) \<and> 0 < bs
         \<and> (\<forall>i<j. match_score ?nt (?cs ! i) < bs)
         \<and> (\<forall>i<length ?cs. match_score ?nt (?cs ! i) \<le> bs)"
    then obtain j where j: "j < length names" "bi = int j" "bs = match_score ?nt (?cs ! j)"
      "\<forall>i<j. match_score ?nt (?cs ! i) < bs"
      "\<forall>i<length names. match_score ?nt (?cs ! i) \<le> bs" by auto
    have bs: "bs = sc j" using j nth by simp
    have first: "\<forall>i<j. sc i < sc j"
    proof (intro allI impI)
      fix i assume "i < j"
      with j have "match_score ?nt (?cs ! i) < bs" and "i < length names" by auto
      with nth bs show "sc i < sc j" by simp
    qed
    have best: "\<forall>i<length names. sc i \<le> sc j"
    proof (intro allI impI)
      fix i assume i: "i < length names"
      with j have "match_score ?nt (?cs ! i) \<le> bs" by simp
      with nth [OF i] bs show "sc i \<le> sc j" by simp
    qed
    show ?thesis
    proof (cases "bs < 3 / 10")
      case True
      have "\<forall>i<length names. sc i < 3 / 10"
      proof (intro allI impI)
        fix i assume "i < length names"
        with best have "sc i \<le> sc j" by simp
        with True bs show "sc i < 3 / 10" by simp
      qed
      with True res show ?thesis by simp
    next
      case False
      with res j have "resolve_name db target names = Some j" by simp
      moreover from False bs have "3 / 10 \<le> sc j" by simp
      ultimately show ?thesis using j(1) best first by blast
    qed
  qed
qed

text \<open>
  C1. A candidate scores \<open>1\<close> when the normalised query occurs in the normalised
  candidate or the other way round, and otherwise the number of common words divided by
  the number of words of the query (at least \<open>1\<close>). The resolver returns no index exactly
  when there is no candidate or every score is below \<open>0.3\<close>; an index it returns has the
  highest score, and every earlier candidate scores strictly less.
\<close>

theorem resolve_name_best_match:
  "match_score a b =
     (if (\<exists>p s. b = p @ a @ s) \<or> (\<exists>p s. a = p @ b @ s) then 1
      else of_nat (card (set (str_split a) \<inter> set (str_split b)))
           / of_nat (max (card (set (str_split a))) 1))
   \<and> (resolve_name db target names = None \<longleftrightarrow>
        names = [] \<or>
        (\<forall>i<length names.
            match_score (normalize_song_name db target) (normalize_song_name db (names ! i)) < 3 / 10))
   \<and> (resolve_name db target names = Some k \<longrightarrow>
        k < length names
        \<and> (\<forall>i<length names.
              match_score (normalize_song_name db target) (normalize_song_name db (names ! i))
              \<le> match_score (normalize_song_name db target) (normalize_song_name db (names ! k)))
        \<and> (\<forall>i<k.
              match_score (normalize_song_name db target) (normalize_song_name db (names ! i))
              < match_score (normalize_song_name db target) (normalize_song_name db (names ! k))))"
proof (intro conjI)
  show "match_score a b =
     (if (\<exists>p s. b = p @ a @ s) \<or> (\<exists>p s. a = p @ b @ s) then 1
      else of_nat (card (set (str_split a) \<inter> set (str_split b)))
           / of_nat (max (card (set (str_split a))) 1))"
    by (simp add: match_score_def py_in_iff Let_def)
next
  let ?sc = "\<lambda>i. match_score (normalize_song_name db target) (normalize_song_name db (names ! i))"
  from resolve_name_cases [of db target names]
  show "resolve_name db target names = None \<longleftrightarrow>
        names = [] \<or> (\<forall>i<length names. ?sc i < 3 / 10)"
  proof
    assume "resolve_name db target names = None \<and> (\<forall>i<length names. ?sc i < 3 / 10)"
    then show ?thesis by simp
  next
    assume "\<exists>k<length names. resolve_name db target names = Some k \<and> 3 / 10 \<le> ?sc k
             \<and> (\<forall>i<length names. ?sc i \<le> ?sc k) \<and> (\<forall>i<k. ?sc i < ?sc k)"
    then obtain k where k: "k < length names" "resolve_name db target names = Some k"
      "3 / 10 \<le> ?sc k" by blast
    then have "\<not> (\<forall>i<length names. ?sc i < 3 / 10)" by (auto simp: not_less)
    moreover from k have "names \<noteq> []" by auto
    ultimately show ?thesis using k by simp
  qed
next
  let ?sc = "\<lambda>i. match_score (normalize_song_name db target) (normalize_song_name db (names ! i))"
  show "resolve_name db target names = Some k \<longrightarrow>
        k < length names \<and> (\<forall>i<length names. ?sc i \<le> ?sc k) \<and> (\<forall>i<k. ?sc i < ?sc k)"
    using resolve_name_cases [of db target names] by auto
qed


lemmas resolve_eval = resolve_name_def match_score_def Let_def

theorem resolve_name_best_match_witness:
  "resolve_name excerpt_db (PyStr (ustr ''song live''))
      [PyStr (ustr ''Other''), PyStr (ustr ''Song (Live Version) [Remastered].mp3''),
       PyStr (ustr ''live a song b''), PyStr (ustr ''Song Live'')] = Some 2
   \<and> match_score (normalize_song_name excerpt_db (PyStr (ustr ''song live'')))
        (normalize_song_name excerpt_db (PyStr (ustr ''Song (Live Version) [Remastered].mp3'')))
      < match_score (normalize_song_name excerpt_db (PyStr (ustr ''song live'')))
          (normalize_song_name excerpt_db (PyStr (ustr ''live a song b'')))
   \<and> match_score (normalize_song_name excerpt_db (PyStr (ustr ''song live'')))
        (normalize_song_name excerpt_db (PyStr (ustr ''Song Live'')))
      \<le> match_score (normalize_song_name excerpt_db (PyStr (ustr ''song live'')))
          (normalize_song_name excerpt_db (PyStr (ustr ''live a song b'')))
   \<and> resolve_name excerpt_db (PyStr (ustr ''song live'')) [] = None
   \<and> resolve_name excerpt_db (PyStr (ustr ''song live'')) [PyStr (ustr ''a b c d'')] = None"
proof -
  let ?t = "PyStr (ustr ''song live'')"
  let ?names = "[PyStr (ustr ''Other''), PyStr (ustr ''Song (Live Version) [Remastered].mp3''),
       PyStr (ustr ''live a song b''), PyStr (ustr ''Song Live'')]"
  let ?sc = "\<lambda>i. match_score (normalize_song_name excerpt_db ?t)
       (normalize_song_name excerpt_db (?names ! i))"
  have e: "resolve_name excerpt_db ?t ?names = Some 2"
    by (simp add: resolve_eval string_eval)
  have "resolve_name excerpt_db ?t ?names = Some 2 \<longrightarrow>
      2 < length ?names \<and> (\<forall>i<length ?names. ?sc i \<le> ?sc 2) \<and> (\<forall>i<2. ?sc i < ?sc 2)"
    by (rule resolve_name_best_match [where db = excerpt_db and target = ?t and names = ?names
        and k = 2, THEN conjunct2, THEN conjunct2])
  with e have best: "\<forall>i<length ?names. ?sc i \<le> ?sc 2" and first: "\<forall>i<2. ?sc i < ?sc 2"
    by blast+
  from first [rule_format, of 1] have f1: "?sc 1 < ?sc 2" by simp
  from best [rule_format, of 3] have b3: "?sc 3 \<le> ?sc 2" by simp
  have none_iff: "\<And>names. resolve_name excerpt_db ?t names = None \<longleftrightarrow>
        names = [] \<or>
        (\<forall>i<length names.
            match_score (normalize_song_name excerpt_db ?t)
              (normalize_song_name excerpt_db (names ! i)) < 3 / 10)"
    by (rule resolve_name_best_match [where db = excerpt_db and target = ?t,
          THEN conjunct2, THEN conjunct1])
  have n0: "resolve_name excerpt_db ?t [] = None"
    using none_iff [of "[]"] by simp
  have "\<forall>i<length [PyStr (ustr ''a b c d'')].
      match_score (normalize_song_name excerpt_db ?t)
        (normalize_song_name excerpt_db ([PyStr (ustr ''a b c d'')] ! i)) < 3 / 10"
    by (simp add: resolve_eval string_eval)
  then have n1: "resolve_name excerpt_db ?t [PyStr (ustr ''a b c d'')] = None"
    using none_iff [of "[PyStr (ustr ''a b c d'')]"] by blast
  from e f1 b3 n0 n1 show ?thesis by simp
qed

text \<open>
  C9 (amended). When the normalised query shares no word with any normalised candidate
  and, in addition, neither occurs in the other as a substring, every score is \<open>0\<close> and
  the resolver returns no index.
\<close>

theorem resolve_name_no_overlap:
  "(\<forall>c\<in>set names.
       set (str_split (normalize_song_name db target))
         \<inter> set (str_split (normalize_song_name db c)) = {}
       \<and> \<not> py_in (normalize_song_name db target) (normalize_song_name db c)
       \<and> \<not> py_in (normalize_song_name db c) (normalize_song_name db target))
   \<Longrightarrow> resolve_name db target names = None
       \<and> (\<forall>c\<in>set names.
             match_score (normalize_song_name db target) (normalize_song_name db c) = 0)"
proof -
  assume h: "\<forall>c\<in>set names.
       set (str_split (normalize_song_name db target))
         \<inter> set (str_split (normalize_song_name db c)) = {}
       \<and> \<not> py_in (normalize_song_name db target) (normalize_song_name db c)
       \<and> \<not> py_in (normalize_song_name db c) (normalize_song_name db target)"
  have z: "\<forall>c\<in>set names.
      match_score (normalize_song_name db target) (normalize_song_name db c) = 0"
    using h by (simp add: match_score_def Let_def)
  have "\<forall>i<length names.
      match_score (normalize_song_name db target) (normalize_song_name db (names ! i)) < 3 / 10"
    using z by simp
  then have "resolve_name db target names = None"
    using resolve_name_cases [of db target names] by (auto simp: not_le [symmetric])
  with z show ?thesis by simp
qed

theorem resolve_name_no_overlap_witness:
  "resolve_name excerpt_db (PyStr (ustr ''Foo Bar''))
     [PyStr (ustr ''baz (foo)''), PyStr (ustr ''Qux!'')] = None
   \<and> match_score (ustr ''foo bar'') (ustr ''baz'') = 0"
proof -
  have h: "\<forall>c\<in>set [PyStr (ustr ''baz (foo)''), PyStr (ustr ''Qux!'')].
       set (str_split (normalize_song_name excerpt_db (PyStr (ustr ''Foo Bar''))))
         \<inter> set (str_split (normalize_song_name excerpt_db c)) = {}
       \<and> \<not> py_in (normalize_song_name excerpt_db (PyStr (ustr ''Foo Bar'')))
             (normalize_song_name excerpt_db c)
       \<and> \<not> py_in (normalize_song_name excerpt_db c)
             (normalize_song_name excerpt_db (PyStr (ustr ''Foo Bar'')))"
    by (simp add: string_eval)
  have e: "normalize_song_name excerpt_db (PyStr (ustr ''Foo Bar'')) = ustr ''foo bar''"
      "normalize_song_name excerpt_db (PyStr (ustr ''baz (foo)'')) = ustr ''baz''"
    by (simp_all add: string_eval)
  show ?thesis
    using resolve_name_no_overlap [OF h] e by simp
qed

text \<open>
  C9 as stated fails: \<open>foo\<close> and \<open>foobar\<close> share no word, but the first is a substring
  of the second, so the score is \<open>1\<close>; a query that normalises to the empty string is a
  substring of every candidate.
\<close>

theorem resolve_name_no_overlap_counterexample:
  "set (str_split (normalize_song_name excerpt_db (PyStr (ustr ''foo''))))
     \<inter> set (str_split (normalize_song_name excerpt_db (PyStr (ustr ''foobar'')))) = {}
   \<and> resolve_name excerpt_db (PyStr (ustr ''foo'')) [PyStr (ustr ''foobar'')] = Some 0
   \<and> set (str_split (normalize_song_name excerpt_db (PyStr (ustr ''!!!''))))
     \<inter> set (str_split (normalize_song_name excerpt_db (PyStr (ustr ''abc'')))) = {}
   \<and> resolve_name excerpt_db (PyStr (ustr ''!!!'')) [PyStr (ustr ''abc'')] = Some 0"
  by (simp add: resolve_eval string_eval)


section \<open>Properties of the Recommendation Selector\<close>



lemma is_argsort_set: "is_argsort row p \<Longrightarrow> set p = {0..<length row}"
  by (metis is_argsort_def mset_eq_setD set_upt)

lemma is_argsort_descending:
  "is_argsort row p \<Longrightarrow> sorted_wrt (\<lambda>a b. row ! b \<le> row ! a) (rev p)"
  by (simp add: is_argsort_def sorted_map sorted_wrt_rev)


lemma select_other_Some:
  assumes p: "is_argsort row p" and r: "select_other target (rev p) = Some k"
  shows "k \<noteq> target \<and> k < length row \<and> (\<forall>i<length row. i \<noteq> target \<longrightarrow> row ! i \<le> row ! k)"
proof -
  let ?q = "rev p"
  from r obtain n where n: "n < length ?q" "?q ! n \<noteq> target" "k = ?q ! n"
    "\<forall>j<n. \<not> ?q ! j \<noteq> target"
    unfolding select_other_def find_Some_iff by blast
  have setq: "set ?q = {0..<length row}"
    using is_argsort_set [OF p] by simp
  from n have "k \<in> set ?q" using nth_mem [of n ?q] by simp
  with setq have k: "k < length row" by simp
  have desc: "sorted_wrt (\<lambda>a b. row ! b \<le> row ! a) ?q"
    by (rule is_argsort_descending [OF p])
  have "\<forall>i<length row. i \<noteq> target \<longrightarrow> row ! i \<le> row ! k"
  proof (intro allI impI)
    fix i assume i: "i < length row" "i \<noteq> target"
    with setq have "i \<in> set ?q" by simp
    then obtain m where m: "m < length ?q" "?q ! m = i"
      unfolding in_set_conv_nth by blast
    have "\<not> m < n"
    proof
      assume "m < n"
      with n have "?q ! m = target" by simp
      with m i show False by simp
    qed
    then consider "m = n" | "n < m" by linarith
    then show "row ! i \<le> row ! k"
    proof cases
      case 1
      with m n show ?thesis by simp
    next
      case 2
      from sorted_wrt_nth_less [OF desc 2 m(1)] m n show ?thesis by simp
    qed
  qed
  with n k show ?thesis by simp
qed


lemmas select_eval = select_other_def is_argsort_def stable_argsort_def


text \<open>
  On a frame of \<open>N\<close> names and an \<open>N\<close> by \<open>N\<close> matrix nothing is raised, and the value
  returned is the name at the selected index.
\<close>

lemma crossfade_body_square:
  assumes names: "df ''filename'' = Some names"
    and t: "resolve_name db target names = Some t"
    and rows: "length sim = length names"
    and sq: "length (sim ! t) = length names"
    and p: "is_argsort (sim ! t) (argsort (sim ! t))"
  shows "crossfade_body argsort db target df sim =
     Inr (case select_other t (rev (argsort (sim ! t))) of None \<Rightarrow> PyNone | Some k \<Rightarrow> names ! k)"
proof -
  have tl: "t < length names"
    using resolve_name_cases [of db target names] t by auto
  have inr: "\<forall>idx\<in>set (rev (argsort (sim ! t))). idx < length names"
    using is_argsort_set [OF p] sq by simp
  have "\<forall>idx\<in>set (take 5 (rev (argsort (sim ! t)))). idx < length names"
    using inr by (meson in_set_takeD)
  then have dbg: "\<not> list_ex (\<lambda>idx. idx \<noteq> t \<and> length names \<le> idx) (take 5 (rev (argsort (sim ! t))))"
    by (auto simp: list_ex_iff)
  have sel: "\<And>k. select_other t (rev (argsort (sim ! t))) = Some k \<Longrightarrow> k < length names"
    using select_other_Some [OF p] sq by auto
  show ?thesis
  proof (cases "select_other t (rev (argsort (sim ! t)))")
    case None
    with names t tl rows dbg show ?thesis by (simp add: crossfade_body_def)
  next
    case (Some k)
    with names t tl rows dbg sel [OF Some] show ?thesis by (simp add: crossfade_body_def)
  qed
qed

text \<open>
  C10. Whatever the body of the \<open>try\<close> block raises, the function returns \<open>None\<close>; when
  the body returns, the function returns that value. In particular a frame without the
  \<open>filename\<close> column (KeyError) and a matrix with too few rows (IndexError) give \<open>None\<close>.
\<close>

theorem find_best_crossfade_from_match_catches:
  "(crossfade_body argsort db target df sim = Inl e \<longrightarrow>
      find_best_crossfade_from_match argsort db target df sim = PyNone)
   \<and> (crossfade_body argsort db target df sim = Inr r \<longrightarrow>
      find_best_crossfade_from_match argsort db target df sim = r)
   \<and> (df ''filename'' = None \<longrightarrow>
      crossfade_body argsort db target df sim = Inl KeyError
      \<and> find_best_crossfade_from_match argsort db target df sim = PyNone)
   \<and> (df ''filename'' = Some names \<and> resolve_name db target names = Some k \<and> length sim \<le> k \<longrightarrow>
      crossfade_body argsort db target df sim = Inl IndexError
      \<and> find_best_crossfade_from_match argsort db target df sim = PyNone)"
  by (simp add: find_best_crossfade_from_match_def crossfade_body_def)

theorem find_best_crossfade_from_match_catches_witness:
  "find_best_crossfade_from_match stable_argsort excerpt_db (PyStr (ustr ''a'')) Map.empty [[1]] = PyNone
   \<and> crossfade_body stable_argsort excerpt_db (PyStr (ustr ''b''))
        (Map.empty(''filename'' \<mapsto> [PyStr (ustr ''a''), PyStr (ustr ''b'')])) [[1, 0]]
      = Inl IndexError
   \<and> find_best_crossfade_from_match stable_argsort excerpt_db (PyStr (ustr ''b''))
        (Map.empty(''filename'' \<mapsto> [PyStr (ustr ''a''), PyStr (ustr ''b'')])) [[1, 0]] = PyNone
   \<and> find_best_crossfade_from_match stable_argsort excerpt_db (PyStr (ustr ''b''))
        (Map.empty(''filename'' \<mapsto> [PyStr (ustr ''a''), PyStr (ustr ''b'')])) [[1, 0], [3, 1]]
      = PyStr (ustr ''a'')"
proof -
  let ?df = "Map.empty(''filename'' \<mapsto> [PyStr (ustr ''a''), PyStr (ustr ''b'')])"
  let ?names = "[PyStr (ustr ''a''), PyStr (ustr ''b'')]"
  have k: "(Map.empty :: dataframe) ''filename'' = None" by simp
  have r: "?df ''filename'' = Some ?names
      \<and> resolve_name excerpt_db (PyStr (ustr ''b'')) ?names = Some 1
      \<and> length [[1, 0 :: real]] \<le> 1"
    by (simp add: resolve_eval string_eval)
  have b: "crossfade_body stable_argsort excerpt_db (PyStr (ustr ''b'')) ?df [[1, 0], [3, 1]]
      = Inr (PyStr (ustr ''a''))"
    by (simp add: crossfade_body_def resolve_eval string_eval select_eval)
  show ?thesis
    using find_best_crossfade_from_match_catches [where argsort = stable_argsort
        and db = excerpt_db and target = "PyStr (ustr ''a'')" and df = Map.empty and sim = "[[1]]"] k
      find_best_crossfade_from_match_catches [where argsort = stable_argsort
        and db = excerpt_db and target = "PyStr (ustr ''b'')" and df = ?df and sim = "[[1, 0]]"
        and names = ?names and k = 1] r
      find_best_crossfade_from_match_catches [where argsort = stable_argsort
        and db = excerpt_db and target = "PyStr (ustr ''b'')" and df = ?df
        and sim = "[[1, 0], [3, 1]]" and r = "PyStr (ustr ''a'')"] b
    by blast
qed




section \<open>Properties of the Similarity Engine\<close>


lemma OVERFLOW_gt_1: "1 < OVERFLOW"
  by (simp add: OVERFLOW_def)

lemma fl_Fin: "- OVERFLOW < r \<Longrightarrow> r < OVERFLOW \<Longrightarrow> fl r = Fin r"
  by (simp add: fl_def)

lemma fl_unit: "\<bar>r\<bar> \<le> 1 \<Longrightarrow> fl r = Fin r"
  using OVERFLOW_gt_1 by (intro fl_Fin) linarith+

lemma combine_Fin:
  assumes "\<bar>m\<bar> \<le> 1" "\<bar>c\<bar> \<le> 1" "\<bar>t\<bar> \<le> 1"
  shows "combine m c (Fin t) = Fin (4 / 10 * m + 2 / 10 * c + 4 / 10 * t)"
proof -
  have a: "\<bar>4 / 10 * m\<bar> \<le> 1" "\<bar>2 / 10 * c\<bar> \<le> 1" "\<bar>4 / 10 * t\<bar> \<le> 1"
    using assms by (simp_all add: abs_mult)
  have b: "\<bar>4 / 10 * m + 2 / 10 * c\<bar> \<le> 1" using assms by arith
  have c: "\<bar>4 / 10 * m + 2 / 10 * c + 4 / 10 * t\<bar> \<le> 1"
    using assms by arith
  show ?thesis
    unfolding combine_def MFCC_WEIGHT_def CHROMA_WEIGHT_def TEMPO_WEIGHT_def
    by (simp only: fmul.simps fadd.simps
        fl_unit [OF a(1)] fl_unit [OF a(2)] fl_unit [OF a(3)] fl_unit [OF b] fl_unit [OF c])
qed

lemma fold_fmax_Fin: "fold fmax (map Fin ds) (Fin d) = Fin (fold max ds d)"
  by (induction ds arbitrary: d) (simp_all add: max.commute)

lemma tempo_gap_bounds:
  assumes a: "a \<in> set df" and b: "b \<in> set df"
  defines "mx \<equiv> Max ((\<lambda>(a, b). tempo_gap a b) ` (set df \<times> set df))"
  shows "tempo_gap a b \<le> mx" and "0 \<le> mx"
proof -
  let ?S = "(\<lambda>(a, b). tempo_gap a b) ` (set df \<times> set df)"
  have fin: "finite ?S" by simp
  have "(a, b) \<in> set df \<times> set df" using a b by simp
  then have "tempo_gap a b \<in> ?S"
    by (metis (mono_tags, lifting) case_prod_conv image_iff)
  then show le: "tempo_gap a b \<le> mx"
    unfolding mx_def using fin by (rule_tac Max_ge)
  have "0 \<le> tempo_gap a b" by (simp add: tempo_gap_def)
  with le show "0 \<le> mx" by linarith
qed

text \<open>With finite cells and no overflow the matrix of differences is the exact one.\<close>

lemma tempo_matrix_finite:
  assumes f: "finite_tempo df"
    and o: "Max ((\<lambda>(a, b). tempo_gap a b) ` (set df \<times> set df)) < OVERFLOW"
  shows "tempo_matrix df = map (\<lambda>r. map (\<lambda>c. Fin (tempo_gap r c)) df) df"
proof -
  have "fabs (fsub (tempo_end r) (tempo_start c)) = Fin (tempo_gap r c)"
    if r: "r \<in> set df" and c: "c \<in> set df" for r c
  proof -
    from f r c obtain x y where x: "tempo_end r = Fin x" and y: "tempo_start c = Fin y"
      by (metis finite_tempo_def float64.collapse)
    have g: "tempo_gap r c = \<bar>x - y\<bar>" by (simp add: tempo_gap_def x y)
    have "\<bar>x - y\<bar> < OVERFLOW"
      using tempo_gap_bounds(1) [OF r c] o g by simp
    then have "fl (x - y) = Fin (x - y)" by (intro fl_Fin) linarith+
    then show ?thesis by (simp add: x y g fsub_def)
  qed
  then show ?thesis by (simp add: tempo_matrix_def)
qed

lemma matrix_max_finite:
  assumes ne: "df \<noteq> []"
  shows "matrix_max (map (\<lambda>r. map (\<lambda>c. Fin (tempo_gap r c)) df) df)
     = Inr (Fin (Max ((\<lambda>(a, b). tempo_gap a b) ` (set df \<times> set df))))"
proof -
  let ?rm = "map (\<lambda>r. map (\<lambda>c. tempo_gap r c) df) df"
  have cc: "concat (map (\<lambda>r. map (\<lambda>c. Fin (tempo_gap r c)) df) df) = map Fin (concat ?rm)"
    by (simp add: map_concat comp_def)
  have "concat ?rm \<noteq> []" using ne by (cases df) auto
  then obtain d ds where c: "concat ?rm = d # ds" by (cases "concat ?rm") auto
  have s: "set (concat ?rm) = (\<lambda>(a, b). tempo_gap a b) ` (set df \<times> set df)"
    by (auto simp: image_iff)
  have "fold max ds d = Max (set (d # ds))"
    using Max.set_eq_fold [of d ds] by simp
  also have "\<dots> = Max ((\<lambda>(a, b). tempo_gap a b) ` (set df \<times> set df))"
    using s c by simp
  finally have "fold max ds d = Max ((\<lambda>(a, b). tempo_gap a b) ` (set df \<times> set df))" .
  then show ?thesis
    by (simp add: matrix_max_def cc c fold_fmax_Fin del: map_map)
qed

lemma tempo_similarity_finite:
  assumes f: "finite_tempo df" and i: "i < length df" and j: "j < length df"
    and mx: "mx = Max ((\<lambda>(a, b). tempo_gap a b) ` (set df \<times> set df))"
    and o: "mx + 1 / 10 ^ 8 < OVERFLOW"
  shows "\<exists>T. tempo_similarity df = Inr T
     \<and> T ! i ! j = Fin (1 - tempo_gap (df ! i) (df ! j) / (mx + 1 / 10 ^ 8))"
    and "0 < mx + 1 / 10 ^ 8"
    and "0 \<le> 1 - tempo_gap (df ! i) (df ! j) / (mx + 1 / 10 ^ 8)"
    and "1 - tempo_gap (df ! i) (df ! j) / (mx + 1 / 10 ^ 8) \<le> 1"
proof -
  let ?d = "tempo_gap (df ! i) (df ! j)"
  let ?den = "mx + 1 / 10 ^ 8"
  have ne: "df \<noteq> []" using i by auto
  have mem: "df ! i \<in> set df" "df ! j \<in> set df" using i j by simp_all
  have d: "?d \<le> mx" and m0: "0 \<le> mx"
    using tempo_gap_bounds [OF mem] unfolding mx by simp_all
  show pos: "0 < ?den" using m0 by simp
  have q0: "0 \<le> ?d / ?den" using pos by (simp add: tempo_gap_def)
  have "?d \<le> ?den" using d by simp
  then have q1: "?d / ?den \<le> 1" using pos by (simp add: divide_le_eq_1_pos)
  show "0 \<le> 1 - ?d / ?den" using q1 by simp
  show "1 - ?d / ?den \<le> 1" using q0 by simp
  have lt: "mx < OVERFLOW" using o by simp
  have tm: "tempo_matrix df = map (\<lambda>r. map (\<lambda>c. Fin (tempo_gap r c)) df) df"
    using tempo_matrix_finite [OF f] lt unfolding mx by simp
  have mm: "matrix_max (tempo_matrix df) = Inr (Fin mx)"
    unfolding tm mx by (rule matrix_max_finite [OF ne])
  have den: "fl ?den = Fin ?den"
    using pos o by (intro fl_Fin) (use OVERFLOW_gt_1 in linarith)+
  let ?T = "map (map (\<lambda>d. fsub (Fin 1) (fdiv d (Fin ?den)))) (tempo_matrix df)"
  have T: "tempo_similarity df = Inr ?T"
    by (simp only: tempo_similarity_def mm sum.case fadd.simps den)
  have "?T ! i ! j = fsub (Fin 1) (fdiv (Fin ?d) (Fin ?den))"
    using i j by (simp add: tm)
  also have "fdiv (Fin ?d) (Fin ?den) = Fin (?d / ?den)"
  proof -
    have "\<bar>?d / ?den\<bar> \<le> 1" using q0 q1 by (simp only: abs_of_nonneg)
    from fl_unit [OF this] pos show ?thesis by simp
  qed
  also have "fsub (Fin 1) (Fin (?d / ?den)) = Fin (1 - ?d / ?den)"
  proof -
    have "\<bar>1 - ?d / ?den\<bar> \<le> 1" using q0 q1 by linarith
    from fl_unit [OF this] show ?thesis by (simp add: fsub_def)
  qed
  finally have "?T ! i ! j = Fin (1 - ?d / ?den)" .
  with T show "\<exists>T. tempo_similarity df = Inr T \<and> T ! i ! j = Fin (1 - ?d / ?den)"
    by blast
qed

lemma tempo_similarity_shape:
  assumes i: "i < length df"
  shows "\<exists>T. tempo_similarity df = Inr T \<and> length T = length df \<and> length (T ! i) = length df"
proof -
  have "concat (tempo_matrix df) \<noteq> []"
    using i by (cases df) (auto simp: tempo_matrix_def)
  then obtain mx where "matrix_max (tempo_matrix df) = Inr mx"
    by (cases "concat (tempo_matrix df)") (auto simp: matrix_max_def)
  then show ?thesis using i by (simp add: tempo_similarity_def tempo_matrix_def)
qed

lemma combine_matrices_nth:
  assumes "i < length A" "i < length B" "i < length T"
    "j < length (A ! i)" "j < length (B ! i)" "j < length (T ! i)"
  shows "combine_matrices A B T ! i ! j = combine (A ! i ! j) (B ! i ! j) (T ! i ! j)"
  using assms by (simp add: combine_matrices_def)

lemma keeps_shape_length: "keeps_shape ft \<Longrightarrow> length (ft M) = length M"
  by (metis keeps_shape_def length_map)

lemma keeps_shape_columns: "keeps_shape ft \<Longrightarrow> n_columns (ft M) = n_columns M"
proof -
  assume k: "keeps_shape ft"
  then have e: "map length (ft M) = map length M" by (simp add: keeps_shape_def)
  show ?thesis
  proof (cases M)
    case Nil
    with e show ?thesis by (simp add: n_columns_def)
  next
    case (Cons a as)
    with e obtain b bs where "ft M = b # bs" "length b = length a"
      by (cases "ft M") auto
    with Cons show ?thesis by (simp add: n_columns_def)
  qed
qed

lemma vstack_consistent:
  assumes "df \<noteq> []" and "\<forall>r\<in>set df. length (f r) = d"
  shows "vstack (map f df) = Inr (map f df)" and "n_columns (map f df) = d"
  using assms by (cases df; simp add: vstack_def n_columns_def list_all_iff)+

text \<open>The entry of the combined matrix, for a consistent data set.\<close>

lemma build_similarity_entry:
  assumes c: "consistent d1 d2 df" and k: "keeps_shape fit_transform"
    and i: "i < length df" and j: "j < length df"
  shows "\<exists>M T. build_similarity cosine fit_transform df = Inr M
      \<and> tempo_similarity df = Inr T
      \<and> M ! i ! j = combine
          (cosine (fit_transform (map mfcc_end df) ! i) (fit_transform (map mfcc_start df) ! j))
          (cosine (fit_transform (map chroma_end df) ! i) (fit_transform (map chroma_start df) ! j))
          (T ! i ! j)"
proof -
  let ?ft = fit_transform
  from c have ne: "df \<noteq> []"
    and ms: "\<forall>r\<in>set df. length (mfcc_start r) = d1" and me: "\<forall>r\<in>set df. length (mfcc_end r) = d1"
    and cs: "\<forall>r\<in>set df. length (chroma_start r) = d2" and ce: "\<forall>r\<in>set df. length (chroma_end r) = d2"
    by (simp_all add: consistent_def)
  note v = vstack_consistent [OF ne ms] vstack_consistent [OF ne me]
    vstack_consistent [OF ne cs] vstack_consistent [OF ne ce]
  let ?A = "map (\<lambda>x. map (\<lambda>y. cosine x y) (?ft (map mfcc_start df))) (?ft (map mfcc_end df))"
  let ?B = "map (\<lambda>x. map (\<lambda>y. cosine x y) (?ft (map chroma_start df))) (?ft (map chroma_end df))"
  have A: "cosine_similarity cosine (?ft (map mfcc_end df)) (?ft (map mfcc_start df)) = Inr ?A"
    by (simp add: cosine_similarity_def keeps_shape_columns [OF k] v)
  have B: "cosine_similarity cosine (?ft (map chroma_end df)) (?ft (map chroma_start df)) = Inr ?B"
    by (simp add: cosine_similarity_def keeps_shape_columns [OF k] v)
  from tempo_similarity_shape [OF i] obtain T where T: "tempo_similarity df = Inr T"
    and lenT: "length T = length df" "length (T ! i) = length df"
    by blast
  have M: "build_similarity cosine ?ft df = Inr (combine_matrices ?A ?B T)"
    by (simp add: build_similarity_def v A B T)
  have len: "length (?ft (map mfcc_end df)) = length df"
    "length (?ft (map mfcc_start df)) = length df"
    "length (?ft (map chroma_end df)) = length df"
    "length (?ft (map chroma_start df)) = length df"
    by (simp_all add: keeps_shape_length [OF k])
  have "combine_matrices ?A ?B T ! i ! j = combine (?A ! i ! j) (?B ! i ! j) (T ! i ! j)"
    using i j len lenT by (intro combine_matrices_nth) simp_all
  also have "\<dots> = combine
          (cosine (?ft (map mfcc_end df) ! i) (?ft (map mfcc_start df) ! j))
          (cosine (?ft (map chroma_end df) ! i) (?ft (map chroma_start df) ! j))
          (T ! i ! j)"
    using i j len by simp
  finally show ?thesis using M T by blast
qed


text \<open>
  C2. For a consistent data set and a shape-keeping scaler the matrix is built, and its
  entry \<open>(i, j)\<close> is, in the arithmetic of doubles, \<open>0.4\<close> times the cosine similarity of
  the scaled ending timbre vector of track \<open>i\<close> and the scaled starting timbre vector of
  track \<open>j\<close>, plus \<open>0.2\<close> times the same for the pitch-class vectors, plus \<open>0.4\<close> times the
  tempo score of the pair. When the three terms are numbers of magnitude at most \<open>1\<close>,
  this is the exact weighted sum. The three weights sum to \<open>1\<close>.
\<close>

theorem similarity_matrix_entry:
  "consistent d1 d2 df \<Longrightarrow> keeps_shape fit_transform \<Longrightarrow> i < length df \<Longrightarrow> j < length df \<Longrightarrow>
   (\<exists>M T. build_similarity cosine fit_transform df = Inr M
      \<and> tempo_similarity df = Inr T
      \<and> M ! i ! j =
          fadd (fadd
            (fmul (Fin (4 / 10))
               (Fin (cosine (fit_transform (map mfcc_end df) ! i)
                            (fit_transform (map mfcc_start df) ! j))))
            (fmul (Fin (2 / 10))
               (Fin (cosine (fit_transform (map chroma_end df) ! i)
                            (fit_transform (map chroma_start df) ! j)))))
            (fmul (Fin (4 / 10)) (T ! i ! j))
      \<and> (\<forall>t. T ! i ! j = Fin t \<and> \<bar>t\<bar> \<le> 1
            \<and> \<bar>cosine (fit_transform (map mfcc_end df) ! i)
                       (fit_transform (map mfcc_start df) ! j)\<bar> \<le> 1
            \<and> \<bar>cosine (fit_transform (map chroma_end df) ! i)
                       (fit_transform (map chroma_start df) ! j)\<bar> \<le> 1
          \<longrightarrow> M ! i ! j = Fin
            (4 / 10 * cosine (fit_transform (map mfcc_end df) ! i)
                             (fit_transform (map mfcc_start df) ! j)
             + 2 / 10 * cosine (fit_transform (map chroma_end df) ! i)
                               (fit_transform (map chroma_start df) ! j)
             + 4 / 10 * t)))
   \<and> MFCC_WEIGHT = 4 / 10 \<and> CHROMA_WEIGHT = 2 / 10 \<and> TEMPO_WEIGHT = 4 / 10
   \<and> MFCC_WEIGHT + CHROMA_WEIGHT + TEMPO_WEIGHT = 1"
proof -
  assume c: "consistent d1 d2 df" and k: "keeps_shape fit_transform"
    and i: "i < length df" and j: "j < length df"
  let ?c1 = "cosine (fit_transform (map mfcc_end df) ! i) (fit_transform (map mfcc_start df) ! j)"
  let ?c2 = "cosine (fit_transform (map chroma_end df) ! i)
      (fit_transform (map chroma_start df) ! j)"
  from build_similarity_entry [OF c k i j, of cosine]
  obtain M T where M: "build_similarity cosine fit_transform df = Inr M"
    and T: "tempo_similarity df = Inr T" and e: "M ! i ! j = combine ?c1 ?c2 (T ! i ! j)"
    by blast
  have a: "M ! i ! j = fadd (fadd (fmul (Fin (4 / 10)) (Fin ?c1)) (fmul (Fin (2 / 10)) (Fin ?c2)))
      (fmul (Fin (4 / 10)) (T ! i ! j))"
    unfolding e combine_def MFCC_WEIGHT_def CHROMA_WEIGHT_def TEMPO_WEIGHT_def ..
  have b: "\<forall>t. T ! i ! j = Fin t \<and> \<bar>t\<bar> \<le> 1 \<and> \<bar>?c1\<bar> \<le> 1 \<and> \<bar>?c2\<bar> \<le> 1
      \<longrightarrow> M ! i ! j = Fin (4 / 10 * ?c1 + 2 / 10 * ?c2 + 4 / 10 * t)"
    using e combine_Fin by simp
  have w: "MFCC_WEIGHT = 4 / 10 \<and> CHROMA_WEIGHT = 2 / 10 \<and> TEMPO_WEIGHT = 4 / 10
   \<and> MFCC_WEIGHT + CHROMA_WEIGHT + TEMPO_WEIGHT = 1"
    by (simp add: MFCC_WEIGHT_def CHROMA_WEIGHT_def TEMPO_WEIGHT_def)
  from M T a b have "\<exists>M T. build_similarity cosine fit_transform df = Inr M
      \<and> tempo_similarity df = Inr T
      \<and> M ! i ! j = fadd (fadd (fmul (Fin (4 / 10)) (Fin ?c1)) (fmul (Fin (2 / 10)) (Fin ?c2)))
            (fmul (Fin (4 / 10)) (T ! i ! j))
      \<and> (\<forall>t. T ! i ! j = Fin t \<and> \<bar>t\<bar> \<le> 1 \<and> \<bar>?c1\<bar> \<le> 1 \<and> \<bar>?c2\<bar> \<le> 1
          \<longrightarrow> M ! i ! j = Fin (4 / 10 * ?c1 + 2 / 10 * ?c2 + 4 / 10 * t))"
    by blast
  with w show ?thesis by blast
qed

lemmas engine_eval = build_similarity_def vstack_def cosine_similarity_def n_columns_def
  tempo_similarity_def tempo_matrix_def matrix_max_def fsub_def fl_def OVERFLOW_def
  combine_matrices_def combine_def MFCC_WEIGHT_def CHROMA_WEIGHT_def TEMPO_WEIGHT_def

theorem similarity_matrix_entry_witness:
  "\<exists>M. build_similarity (\<lambda>x y. sum_list (map2 (*) x y)) (\<lambda>M. M)
          [\<lparr>mfcc_start = [1, 0], chroma_start = [1], mfcc_end = [0, 2], chroma_end = [3],
            tempo_start = Fin 120, tempo_end = Fin 100\<rparr>,
           \<lparr>mfcc_start = [1, 1], chroma_start = [2], mfcc_end = [1, 2], chroma_end = [1],
            tempo_start = Fin 90, tempo_end = Fin 120\<rparr>] = Inr M
       \<and> M ! 0 ! 1 = Fin (34000000012 / 15000000005)"
proof -
  let ?df = "[\<lparr>mfcc_start = [1, 0], chroma_start = [1], mfcc_end = [0, 2], chroma_end = [3],
            tempo_start = Fin 120, tempo_end = Fin 100\<rparr>,
           \<lparr>mfcc_start = [1, 1], chroma_start = [2], mfcc_end = [1, 2], chroma_end = [1],
            tempo_start = Fin 90, tempo_end = Fin 120\<rparr>]"
  let ?dot = "\<lambda>x y :: real list. sum_list (map2 (*) x y)"
  have c: "consistent 2 1 ?df" by (simp add: consistent_def)
  have k: "keeps_shape (\<lambda>M. M)" by (simp add: keeps_shape_def)
  have i: "0 < length ?df" and j: "1 < length ?df" by simp_all
  have T: "tempo_similarity ?df =
      Inr [[Fin (1000000001 / 3000000001), Fin (2000000001 / 3000000001)],
           [Fin 1, Fin (1 / 3000000001)]]"
    by (simp add: engine_eval)
  from similarity_matrix_entry [where cosine = ?dot, OF c k i j]
  obtain M T' where M: "build_similarity ?dot (\<lambda>M. M) ?df = Inr M"
    and T': "tempo_similarity ?df = Inr T'"
    and e: "M ! 0 ! 1 =
      fadd (fadd (fmul (Fin (4 / 10)) (Fin (?dot (map mfcc_end ?df ! 0) (map mfcc_start ?df ! 1))))
                 (fmul (Fin (2 / 10))
                    (Fin (?dot (map chroma_end ?df ! 0) (map chroma_start ?df ! 1)))))
           (fmul (Fin (4 / 10)) (T' ! 0 ! 1))"
    by blast
  from T T' have "T' ! 0 ! 1 = Fin (2000000001 / 3000000001)" by simp
  with e have "M ! 0 ! 1 = Fin (34000000012 / 15000000005)"
    by (simp add: fl_def OVERFLOW_def)
  with M show ?thesis by blast
qed

text \<open>
  C6 (amended). For a data set whose tempo cells are all numbers, with \<open>mx\<close> the largest
  \<open>|tempo_end - tempo_start|\<close> over all pairs of tracks and \<open>mx + 1e-8\<close> below the overflow
  threshold: the tempo score of the pair \<open>(i, j)\<close> is
  \<open>1 - |tempo_end[i] - tempo_start[j]| / (mx + 1e-8)\<close>, the divisor is positive, the score
  lies between \<open>0\<close> and \<open>1\<close> and is \<open>1\<close> when every difference is \<open>0\<close>, and the entry of the
  combined matrix is a number whenever the two cosine similarities lie between \<open>-1\<close>
  and \<open>1\<close>.
\<close>

theorem tempo_similarity_range:
  "finite_tempo df \<Longrightarrow> i < length df \<Longrightarrow> j < length df \<Longrightarrow>
   mx = Max ((\<lambda>(a, b). tempo_gap a b) ` (set df \<times> set df)) \<Longrightarrow>
   mx + 1 / 10 ^ 8 < OVERFLOW \<Longrightarrow>
   v = 1 - tempo_gap (df ! i) (df ! j) / (mx + 1 / 10 ^ 8) \<Longrightarrow>
   (\<exists>T. tempo_similarity df = Inr T \<and> T ! i ! j = Fin v)
   \<and> 0 < mx + 1 / 10 ^ 8 \<and> 0 \<le> v \<and> v \<le> 1
   \<and> (mx = 0 \<longrightarrow> v = 1)
   \<and> (consistent d1 d2 df \<and> keeps_shape fit_transform
       \<and> \<bar>cosine (fit_transform (map mfcc_end df) ! i)
                  (fit_transform (map mfcc_start df) ! j)\<bar> \<le> 1
       \<and> \<bar>cosine (fit_transform (map chroma_end df) ! i)
                  (fit_transform (map chroma_start df) ! j)\<bar> \<le> 1
      \<longrightarrow> (\<exists>M. build_similarity cosine fit_transform df = Inr M
            \<and> M ! i ! j = Fin
               (4 / 10 * cosine (fit_transform (map mfcc_end df) ! i)
                                (fit_transform (map mfcc_start df) ! j)
                + 2 / 10 * cosine (fit_transform (map chroma_end df) ! i)
                                  (fit_transform (map chroma_start df) ! j)
                + 4 / 10 * v)))"
proof -
  assume f: "finite_tempo df" and i: "i < length df" and j: "j < length df"
    and mx: "mx = Max ((\<lambda>(a, b). tempo_gap a b) ` (set df \<times> set df))"
    and o: "mx + 1 / 10 ^ 8 < OVERFLOW"
    and v: "v = 1 - tempo_gap (df ! i) (df ! j) / (mx + 1 / 10 ^ 8)"
  let ?c1 = "cosine (fit_transform (map mfcc_end df) ! i) (fit_transform (map mfcc_start df) ! j)"
  let ?c2 = "cosine (fit_transform (map chroma_end df) ! i)
      (fit_transform (map chroma_start df) ! j)"
  note ts = tempo_similarity_finite [OF f i j mx o]
  have e: "\<exists>T. tempo_similarity df = Inr T \<and> T ! i ! j = Fin v"
    unfolding v by (rule ts(1))
  have pos: "0 < mx + 1 / 10 ^ 8" by (rule ts(2))
  have ge: "0 \<le> v" and le: "v \<le> 1" unfolding v by (rule ts(3), rule ts(4))
  have z: "mx = 0 \<longrightarrow> v = 1"
  proof
    assume m0: "mx = 0"
    have "df ! i \<in> set df" "df ! j \<in> set df" using i j by simp_all
    from tempo_gap_bounds(1) [OF this] have "tempo_gap (df ! i) (df ! j) \<le> mx"
      unfolding mx .
    moreover have "0 \<le> tempo_gap (df ! i) (df ! j)" by (simp add: tempo_gap_def)
    ultimately have "tempo_gap (df ! i) (df ! j) = 0" using m0 by simp
    then show "v = 1" unfolding v by simp
  qed
  have b: "consistent d1 d2 df \<and> keeps_shape fit_transform \<and> \<bar>?c1\<bar> \<le> 1 \<and> \<bar>?c2\<bar> \<le> 1
      \<longrightarrow> (\<exists>M. build_similarity cosine fit_transform df = Inr M
            \<and> M ! i ! j = Fin (4 / 10 * ?c1 + 2 / 10 * ?c2 + 4 / 10 * v))"
  proof
    assume h: "consistent d1 d2 df \<and> keeps_shape fit_transform \<and> \<bar>?c1\<bar> \<le> 1 \<and> \<bar>?c2\<bar> \<le> 1"
    then have c: "consistent d1 d2 df" and k: "keeps_shape fit_transform"
      and c1: "\<bar>?c1\<bar> \<le> 1" and c2: "\<bar>?c2\<bar> \<le> 1" by simp_all
    from build_similarity_entry [OF c k i j, of cosine]
    obtain M T where M: "build_similarity cosine fit_transform df = Inr M"
      and T: "tempo_similarity df = Inr T" and m: "M ! i ! j = combine ?c1 ?c2 (T ! i ! j)"
      by blast
    from e T have "T ! i ! j = Fin v" by auto
    moreover have "\<bar>v\<bar> \<le> 1" using ge le by simp
    ultimately have "M ! i ! j = Fin (4 / 10 * ?c1 + 2 / 10 * ?c2 + 4 / 10 * v)"
      using m combine_Fin [OF c1 c2] by simp
    with M show "\<exists>M. build_similarity cosine fit_transform df = Inr M
            \<and> M ! i ! j = Fin (4 / 10 * ?c1 + 2 / 10 * ?c2 + 4 / 10 * v)"
      by blast
  qed
  from e pos ge le z b show ?thesis by blast
qed

theorem tempo_similarity_range_witness:
  "(\<exists>T. tempo_similarity
          [\<lparr>mfcc_start = [1, 0], chroma_start = [1], mfcc_end = [0, 1 / 2], chroma_end = [1 / 3],
            tempo_start = Fin 120, tempo_end = Fin 120\<rparr>,
           \<lparr>mfcc_start = [1, 1], chroma_start = [1 / 2], mfcc_end = [1, 0], chroma_end = [1],
            tempo_start = Fin 120, tempo_end = Fin 120\<rparr>] = Inr T
       \<and> T ! 0 ! 1 = Fin 1)
   \<and> (\<exists>M. build_similarity (\<lambda>x y. sum_list (map2 (*) x y)) (\<lambda>M. M)
          [\<lparr>mfcc_start = [1, 0], chroma_start = [1], mfcc_end = [0, 1 / 2], chroma_end = [1 / 3],
            tempo_start = Fin 120, tempo_end = Fin 120\<rparr>,
           \<lparr>mfcc_start = [1, 1], chroma_start = [1 / 2], mfcc_end = [1, 0], chroma_end = [1],
            tempo_start = Fin 120, tempo_end = Fin 120\<rparr>] = Inr M
       \<and> M ! 0 ! 1 = Fin (19 / 30))"
proof -
  let ?df = "[\<lparr>mfcc_start = [1, 0], chroma_start = [1], mfcc_end = [0, 1 / 2], chroma_end = [1 / 3],
            tempo_start = Fin 120, tempo_end = Fin 120\<rparr>,
           \<lparr>mfcc_start = [1, 1], chroma_start = [1 / 2], mfcc_end = [1, 0], chroma_end = [1],
            tempo_start = Fin 120, tempo_end = Fin 120\<rparr>]"
  let ?dot = "\<lambda>x y :: real list. sum_list (map2 (*) x y)"
  let ?mx = "Max ((\<lambda>(a, b). tempo_gap a b) ` (set ?df \<times> set ?df))"
  let ?v = "1 - tempo_gap (?df ! 0) (?df ! 1) / (?mx + 1 / 10 ^ 8)"
  have f: "finite_tempo ?df" by (simp add: finite_tempo_def)
  have i: "0 < length ?df" and j: "1 < length ?df" by simp_all
  have "matrix_max (map (\<lambda>r. map (\<lambda>c. Fin (tempo_gap r c)) ?df) ?df) = Inr (Fin 0)"
    by (simp add: matrix_max_def tempo_gap_def)
  moreover have "matrix_max (map (\<lambda>r. map (\<lambda>c. Fin (tempo_gap r c)) ?df) ?df) = Inr (Fin ?mx)"
    by (rule matrix_max_finite) simp
  ultimately have z: "?mx = 0" by simp
  have o: "?mx + 1 / 10 ^ 8 < OVERFLOW"
    unfolding z using OVERFLOW_gt_1 by simp
  have c: "consistent 2 1 ?df \<and> keeps_shape (\<lambda>M. M)
      \<and> \<bar>?dot (map mfcc_end ?df ! 0) (map mfcc_start ?df ! 1)\<bar> \<le> 1
      \<and> \<bar>?dot (map chroma_end ?df ! 0) (map chroma_start ?df ! 1)\<bar> \<le> 1"
    by (simp add: consistent_def keeps_shape_def)
  note t = tempo_similarity_range [where cosine = ?dot and fit_transform = "\<lambda>M. M"
      and ?d1.0 = 2 and ?d2.0 = 1, OF f i j refl o refl]
  from t have t1: "\<exists>T. tempo_similarity ?df = Inr T \<and> T ! 0 ! 1 = Fin ?v"
    and t2: "?mx = 0 \<longrightarrow> ?v = 1" by blast+
  from t c have t3: "\<exists>M. build_similarity ?dot (\<lambda>M. M) ?df = Inr M
       \<and> M ! 0 ! 1 = Fin (4 / 10 * ?dot (map mfcc_end ?df ! 0) (map mfcc_start ?df ! 1)
          + 2 / 10 * ?dot (map chroma_end ?df ! 0) (map chroma_start ?df ! 1) + 4 / 10 * ?v)"
    by blast
  from t2 z have v1: "?v = 1" by blast
  from t1 have a: "\<exists>T. tempo_similarity ?df = Inr T \<and> T ! 0 ! 1 = Fin 1"
    unfolding v1 .
  from t3 have b: "\<exists>M. build_similarity ?dot (\<lambda>M. M) ?df = Inr M \<and> M ! 0 ! 1 = Fin (19 / 30)"
    unfolding v1 by simp
  from a b show ?thesis by blast
qed

text \<open>
  C6 as stated fails. The tempo columns are not validated: with \<open>tempo_end = 2^1023\<close> and
  \<open>tempo_start = -2^1023\<close>, both finite doubles, the difference overflows to infinity, the
  maximum is infinite and the score is \<open>inf / inf\<close>, NaN, in the tempo matrix and in the
  combined matrix; one NaN cell makes every entry NaN.
\<close>

theorem tempo_similarity_range_counterexample:
  "tempo_similarity
     [\<lparr>mfcc_start = [1], chroma_start = [1], mfcc_end = [1], chroma_end = [1],
       tempo_start = Fin (- (2 ^ 1023)), tempo_end = Fin (2 ^ 1023)\<rparr>] = Inr [[NaN]]
   \<and> build_similarity (\<lambda>x y. 1) (\<lambda>M. M)
     [\<lparr>mfcc_start = [1], chroma_start = [1], mfcc_end = [1], chroma_end = [1],
       tempo_start = Fin (- (2 ^ 1023)), tempo_end = Fin (2 ^ 1023)\<rparr>] = Inr [[NaN]]
   \<and> tempo_similarity
     [\<lparr>mfcc_start = [1], chroma_start = [1], mfcc_end = [1], chroma_end = [1],
       tempo_start = NaN, tempo_end = Fin 120\<rparr>,
      \<lparr>mfcc_start = [1], chroma_start = [1], mfcc_end = [1], chroma_end = [1],
       tempo_start = Fin 100, tempo_end = Fin 120\<rparr>] = Inr [[NaN, NaN], [NaN, NaN]]"
  by (simp add: engine_eval)


section \<open>Properties of the Feature Scaler\<close>


lemma sum_list_shift: "sum_list (map (\<lambda>x. x - m) xs) = sum_list xs - real (length xs) * m"
  for m :: real
  by (induction xs) (simp_all add: algebra_simps)

lemma sum_list_scale: "sum_list (map (\<lambda>x. f x / s) xs) = sum_list (map f xs) / s"
  for s :: real
  by (induction xs) (simp_all add: add_divide_distrib)

lemma column_variance_nonneg: "0 \<le> column_variance xs"
  unfolding column_variance_def
  by (intro divide_nonneg_nonneg sum_list_nonneg) auto

lemma column_variance_Nil [simp]: "column_variance [] = 0"
  by (simp add: column_variance_def)

lemma length_scale_column [simp]: "length (scale_column xs) = length xs"
  by (simp add: scale_column_def)

text \<open>After the transform a column of nonzero variance has mean 0 and variance 1.\<close>

lemma scale_column_mean:
  assumes "column_variance xs \<noteq> 0"
  shows "column_mean (scale_column xs) = 0"
proof -
  have ne: "xs \<noteq> []" using assms by auto
  then have n: "real (length xs) \<noteq> 0" by simp
  have "sum_list (map (\<lambda>x. (x - column_mean xs) / column_std xs) xs)
      = sum_list (map (\<lambda>x. x - column_mean xs) xs) / column_std xs"
    by (rule sum_list_scale)
  also have "sum_list (map (\<lambda>x. x - column_mean xs) xs) = 0"
    using n by (simp add: sum_list_shift column_mean_def)
  finally show ?thesis using assms by (simp add: scale_column_def column_mean_def)
qed

lemma scale_column_variance:
  assumes v: "column_variance xs \<noteq> 0"
  shows "column_variance (scale_column xs) = 1"
proof -
  let ?m = "column_mean xs" and ?s = "column_std xs"
  have pos: "0 < column_variance xs"
    using v column_variance_nonneg [of xs] by linarith
  have s2: "?s\<^sup>2 = column_variance xs"
    using pos by (simp add: column_std_def)
  have m0: "column_mean (scale_column xs) = 0" by (rule scale_column_mean [OF v])
  have sc: "scale_column xs = map (\<lambda>x. (x - ?m) / ?s) xs"
    using v by (simp add: scale_column_def)
  have "column_variance (scale_column xs)
      = sum_list (map (\<lambda>y. y\<^sup>2) (scale_column xs)) / real (length xs)"
    by (simp add: column_variance_def m0)
  also have "sum_list (map (\<lambda>y. y\<^sup>2) (scale_column xs))
      = sum_list (map (\<lambda>x. (x - ?m)\<^sup>2 / ?s\<^sup>2) xs)"
    unfolding sc by (simp add: comp_def power_divide)
  also have "\<dots> = sum_list (map (\<lambda>x. (x - ?m)\<^sup>2) xs) / ?s\<^sup>2"
    by (rule sum_list_scale)
  finally have "column_variance (scale_column xs) = column_variance xs / ?s\<^sup>2"
    by (simp add: column_variance_def)
  with s2 v show ?thesis by simp
qed

lemma column_standardize:
  assumes rect: "\<forall>row\<in>set M. length row = d" and j: "j < d"
  shows "column (standardize M) j = scale_column (column M j)"
proof (cases "M = []")
  case True
  then show ?thesis by (simp add: standardize_def column_def scale_column_def)
next
  case False
  then have nc: "n_columns M = d"
    using rect by (cases M) (simp_all add: n_columns_def)
  have "column (standardize M) j = map (\<lambda>i. scale_column (column M j) ! i) [0..<length M]"
    using j by (simp add: standardize_def column_def nc comp_def)
  also have "\<dots> = map (\<lambda>i. scale_column (column M j) ! i) [0..<length (scale_column (column M j))]"
    by (simp add: column_def)
  also have "\<dots> = scale_column (column M j)"
    by (rule map_nth)
  finally show ?thesis .
qed

lemma standardize_nth:
  assumes rect: "\<forall>row\<in>set M. length row = d" and j: "j < d" and i: "i < length M"
  shows "standardize M ! i ! j = scale_column (column M j) ! i"
    and "column M j ! i = M ! i ! j"
proof -
  have "M \<noteq> []" using i by auto
  then have nc: "n_columns M = d"
    using rect by (cases M) (simp_all add: n_columns_def)
  show "standardize M ! i ! j = scale_column (column M j) ! i"
    using i j by (simp add: standardize_def nc)
  show "column M j ! i = M ! i ! j"
    using i by (simp add: column_def)
qed

text \<open>
  C5. On a matrix whose rows have one length, standardization transforms each column on
  its own. A column of nonzero variance is mapped to its values minus the column mean,
  divided by the population standard deviation (the square root of the sum of squared
  deviations divided by \<open>N\<close>), and then has mean \<open>0\<close> and standard deviation \<open>1\<close>. A column
  of variance zero is mapped to zeros.
\<close>

theorem standardize_columns:
  "(\<forall>row\<in>set M. length row = d) \<Longrightarrow> j < d \<Longrightarrow>
   column (standardize M) j = scale_column (column M j)
   \<and> (column_variance (column M j) \<noteq> 0 \<longrightarrow>
        column_mean (column (standardize M) j) = 0
        \<and> column_std (column (standardize M) j) = 1
        \<and> (\<forall>i<length M. standardize M ! i ! j =
              (M ! i ! j - sum_list (column M j) / real (length M))
              / sqrt (sum_list (map (\<lambda>x. (x - sum_list (column M j) / real (length M))\<^sup>2)
                                 (column M j)) / real (length M))))
   \<and> (column_variance (column M j) = 0 \<longrightarrow> (\<forall>i<length M. standardize M ! i ! j = 0))"
proof -
  assume rect: "\<forall>row\<in>set M. length row = d" and j: "j < d"
  let ?col = "column M j"
  have c: "column (standardize M) j = scale_column ?col"
    by (rule column_standardize [OF rect j])
  have len: "length ?col = length M" by (simp add: column_def)
  have nz: "column_variance ?col \<noteq> 0 \<longrightarrow>
        column_mean (column (standardize M) j) = 0
        \<and> column_std (column (standardize M) j) = 1
        \<and> (\<forall>i<length M. standardize M ! i ! j =
              (M ! i ! j - sum_list ?col / real (length M))
              / sqrt (sum_list (map (\<lambda>x. (x - sum_list ?col / real (length M))\<^sup>2) ?col)
                      / real (length M)))"
  proof
    assume v: "column_variance ?col \<noteq> 0"
    have m: "column_mean (column (standardize M) j) = 0"
      unfolding c by (rule scale_column_mean [OF v])
    have s: "column_std (column (standardize M) j) = 1"
      unfolding c by (simp add: column_std_def scale_column_variance [OF v])
    have e: "\<forall>i<length M. standardize M ! i ! j =
              (M ! i ! j - sum_list ?col / real (length M))
              / sqrt (sum_list (map (\<lambda>x. (x - sum_list ?col / real (length M))\<^sup>2) ?col)
                      / real (length M))"
    proof (intro allI impI)
      fix i assume i: "i < length M"
      have "standardize M ! i ! j = scale_column ?col ! i"
        by (rule standardize_nth(1) [OF rect j i])
      also have "\<dots> = (?col ! i - column_mean ?col) / column_std ?col"
        using v i len by (simp add: scale_column_def)
      also have "?col ! i = M ! i ! j" by (rule standardize_nth(2) [OF rect j i])
      finally show "standardize M ! i ! j =
              (M ! i ! j - sum_list ?col / real (length M))
              / sqrt (sum_list (map (\<lambda>x. (x - sum_list ?col / real (length M))\<^sup>2) ?col)
                      / real (length M))"
        by (simp add: column_mean_def column_std_def column_variance_def len)
    qed
    from m s e show "column_mean (column (standardize M) j) = 0
        \<and> column_std (column (standardize M) j) = 1
        \<and> (\<forall>i<length M. standardize M ! i ! j =
              (M ! i ! j - sum_list ?col / real (length M))
              / sqrt (sum_list (map (\<lambda>x. (x - sum_list ?col / real (length M))\<^sup>2) ?col)
                      / real (length M)))"
      by blast
  qed
  have z: "column_variance ?col = 0 \<longrightarrow> (\<forall>i<length M. standardize M ! i ! j = 0)"
  proof (intro impI allI)
    fix i assume v: "column_variance ?col = 0" and i: "i < length M"
    have "standardize M ! i ! j = scale_column ?col ! i"
      by (rule standardize_nth(1) [OF rect j i])
    also have "\<dots> = 0" using v i len by (simp add: scale_column_def)
    finally show "standardize M ! i ! j = 0" .
  qed
  from c nz z show ?thesis by blast
qed

lemmas scaler_eval = standardize_def n_columns_def column_def scale_column_def
  column_variance_def column_mean_def column_std_def

theorem standardize_columns_witness:
  "standardize [[1, 7], [3, 7]] = [[- 1, 0], [1, 0]]
   \<and> column_mean (column (standardize [[1, 7], [3, 7]]) 0) = 0
   \<and> column_std (column (standardize [[1, 7], [3, 7]]) 0) = 1
   \<and> standardize [[1, 7], [3, 7]] ! 1 ! 1 = 0"
proof -
  let ?M = "[[1, 7], [3, 7 :: real]]"
  have rect: "\<forall>row\<in>set ?M. length row = 2" and j0: "(0::nat) < 2" and j1: "(1::nat) < 2"
    by simp_all
  have v0: "column_variance (column ?M 0) \<noteq> 0"
    by (simp add: column_def column_variance_def column_mean_def)
  have v1: "column_variance (column ?M 1) = 0"
    by (simp add: column_def column_variance_def column_mean_def)
  from standardize_columns [OF rect j0] v0
  have a: "column_mean (column (standardize ?M) 0) = 0"
    and b: "column_std (column (standardize ?M) 0) = 1" by blast+
  from standardize_columns [OF rect j1] v1
  have "\<forall>i<length ?M. standardize ?M ! i ! 1 = 0" by blast
  then have c: "standardize ?M ! 1 ! 1 = 0" by simp
  have e: "standardize ?M = [[- 1, 0], [1, 0]]"
    by (simp add: scaler_eval upt_rec)
  from e a b c show ?thesis by blast
qed


section \<open>Properties of the cosine similarity\<close>


lemma dot_self_nonneg: "0 \<le> dot x x"
  unfolding dot_def by (induction x) simp_all

lemma dot_self_zero_iff: "dot x x = 0 \<longleftrightarrow> (\<forall>v\<in>set x. v = 0)"
proof (induction x)
  case Nil
  show ?case by (simp add: dot_def)
next
  case (Cons a x)
  have "dot (a # x) (a # x) = a * a + dot x x" by (simp add: dot_def)
  moreover have "0 \<le> a * a" by simp
  moreover have "0 \<le> dot x x" by (rule dot_self_nonneg)
  ultimately have "dot (a # x) (a # x) = 0 \<longleftrightarrow> a * a = 0 \<and> dot x x = 0"
    by (simp add: add_nonneg_eq_0_iff)
  with Cons show ?case by auto
qed

lemma l2_norm_zero_iff: "l2_norm x = 0 \<longleftrightarrow> (\<forall>v\<in>set x. v = 0)"
  by (simp add: l2_norm_def dot_self_zero_iff)

lemma l2_norm_square: "l2_norm x * l2_norm x = dot x x"
  by (simp add: l2_norm_def dot_self_nonneg)

text \<open>
  C7. The cosine similarity of two vectors is never undefined. It is the dot product
  divided by the product of the two L2 norms when both norms are nonzero, and \<open>0\<close> when a
  norm is zero, that is when a vector is all zeros; a vector of nonzero norm has
  similarity \<open>1\<close> with itself, and orthogonal vectors have similarity \<open>0\<close>.
\<close>

theorem cosine_spec_rules:
  "cosine_spec x y \<noteq> None
   \<and> (l2_norm x \<noteq> 0 \<and> l2_norm y \<noteq> 0 \<longrightarrow>
        cosine_spec x y = Some (dot x y / (l2_norm x * l2_norm y)))
   \<and> (l2_norm x = 0 \<or> l2_norm y = 0 \<longrightarrow> cosine_spec x y = Some 0)
   \<and> ((\<forall>v\<in>set x. v = 0) \<or> (\<forall>v\<in>set y. v = 0) \<longrightarrow> cosine_spec x y = Some 0)
   \<and> (l2_norm x \<noteq> 0 \<longrightarrow> cosine_spec x x = Some 1)
   \<and> (dot x y = 0 \<longrightarrow> cosine_spec x y = Some 0)"
proof (intro conjI impI)
  show "cosine_spec x y \<noteq> None"
    by (simp add: cosine_spec_def guarded_divide_def)
next
  assume "l2_norm x \<noteq> 0 \<and> l2_norm y \<noteq> 0"
  then show "cosine_spec x y = Some (dot x y / (l2_norm x * l2_norm y))"
    by (simp add: cosine_spec_def guarded_divide_def)
next
  assume "l2_norm x = 0 \<or> l2_norm y = 0"
  then show "cosine_spec x y = Some 0"
    by (auto simp: cosine_spec_def)
next
  assume "(\<forall>v\<in>set x. v = 0) \<or> (\<forall>v\<in>set y. v = 0)"
  then have "l2_norm x = 0 \<or> l2_norm y = 0"
    by (simp only: l2_norm_zero_iff)
  then show "cosine_spec x y = Some 0"
    by (auto simp: cosine_spec_def)
next
  assume n: "l2_norm x \<noteq> 0"
  then have "dot x x \<noteq> 0" by (simp add: l2_norm_def)
  with n show "cosine_spec x x = Some 1"
    by (simp add: cosine_spec_def guarded_divide_def l2_norm_square)
next
  assume "dot x y = 0"
  then show "cosine_spec x y = Some 0"
    by (simp add: cosine_spec_def guarded_divide_def)
qed

theorem cosine_spec_rules_witness:
  "cosine_spec [3, 4] [4, 3] = Some (24 / 25)
   \<and> cosine_spec [3, 4] [3, 4] = Some 1
   \<and> cosine_spec [1, 0] [0, 1] = Some 0
   \<and> cosine_spec [0, 0] [3, 4] = Some 0"
proof -
  have s: "sqrt 25 = 5" using real_sqrt_abs [of 5] by simp
  have n: "l2_norm [3, 4] = 5" "l2_norm [4, 3] = 5"
    by (simp_all add: l2_norm_def dot_def s)
  have d: "dot [3, 4] [4, 3] = 24" "dot [1, 0] [0, 1] = 0" by (simp_all add: dot_def)
  have h1: "l2_norm [3, 4] \<noteq> 0 \<and> l2_norm [4, 3] \<noteq> 0" using n by simp
  have h2: "l2_norm [3, 4] \<noteq> 0" using n by simp
  have h3: "(\<forall>v\<in>set [0, 0 :: real]. v = 0) \<or> (\<forall>v\<in>set [3, 4 :: real]. v = 0)" by simp
  from cosine_spec_rules [of "[3, 4]" "[4, 3]"] h1
  have a: "cosine_spec [3, 4] [4, 3] = Some (24 / 25)" by (simp add: n d)
  from cosine_spec_rules [of "[3, 4]" "[4, 3]"] h2
  have b: "cosine_spec [3, 4] [3, 4] = Some 1" by blast
  from cosine_spec_rules [of "[1, 0]" "[0, 1]"] d(2)
  have c: "cosine_spec [1, 0] [0, 1] = Some 0" by blast
  from cosine_spec_rules [of "[0, 0]" "[3, 4]"] h3
  have e: "cosine_spec [0, 0] [3, 4] = Some 0" by blast
  from a b c e show ?thesis by blast
qed


end
